theory Spec2Isabelle
  imports Main "HOL-Library.Word"
begin

section \<open>The idle-state tracking engine of gpu-idle-exporter\<close>

text \<open>
  A shallow embedding of \<^verbatim>\<open>internal/idle\<close> (the tracker, \<^verbatim>\<open>Tracker.Update\<close>) and of
  \<^verbatim>\<open>internal/collector\<close> (the sample merger, \<^verbatim>\<open>Collector.collectProcesses\<close>).

  Go's \<^verbatim>\<open>time.Time\<close> is a point on one time line and is modelled as an integer count of
  nanoseconds, the zero value of \<^verbatim>\<open>time.Time\<close> being \<open>0\<close>. A \<^verbatim>\<open>time.Duration\<close> is a 64-bit
  signed count of nanoseconds, modelled as an integer between \<open>minDuration\<close> and
  \<open>maxDuration\<close>. \<^verbatim>\<open>uint32\<close> and \<^verbatim>\<open>uint64\<close> are 32-bit and 64-bit words (compared unsigned),
  Go's \<^verbatim>\<open>int\<close> device index is an integer. Log output is the only effect left out.
\<close>

type_synonym time = int
type_synonym duration = int
type_synonym uint32 = "32 word"
type_synonym uint64 = "64 word"

subsection \<open>\<^verbatim>\<open>Time.Sub\<close> of Go's standard library\<close>

text \<open>
  The ends of the range of a \<^verbatim>\<open>time.Duration\<close>: \<^verbatim>\<open>minDuration = -1 << 63\<close> and
  \<^verbatim>\<open>maxDuration = 1<<63 - 1\<close> nanoseconds, about 292 years each way.
\<close>

definition minDuration :: duration where
  "minDuration = - (2 ^ 63)"

definition maxDuration :: duration where
  "maxDuration = 2 ^ 63 - 1"

text \<open>
  \<^verbatim>\<open>t.Sub(u)\<close> is the duration \<open>t - u\<close>; when that is more than the largest duration or
  less than the smallest, the largest or the smallest duration is returned instead.
\<close>

definition Sub :: "time \<Rightarrow> time \<Rightarrow> duration" where
  "Sub t u =
     (let d = t - u in
      if d > maxDuration then maxDuration
      else if d < minDuration then minDuration
      else d)"

subsection \<open>Data of the collector that the tracker reads\<close>

text \<open>\<^verbatim>\<open>collector.ProcessSample\<close>: per-process data for a single GPU.\<close>

record ProcessSample =
  GPU :: int
  PID :: uint32
  UsedMemory :: uint64
  SmUtil :: uint32

text \<open>
  \<^verbatim>\<open>collector.Snapshot\<close>: the result of one collection cycle. The \<^verbatim>\<open>Devices\<close> field is not
  read by the tracker and is left out. \<^verbatim>\<open>ProcessNames\<close> is a Go map; reading a missing key
  gives the empty string.
\<close>

record Snapshot =
  Timestamp :: time
  Processes :: "ProcessSample list"
  ProcessNames :: "uint32 \<rightharpoonup> string"

definition name_of :: "(uint32 \<rightharpoonup> string) \<Rightarrow> uint32 \<Rightarrow> string" where
  "name_of names pid = (case names pid of None \<Rightarrow> [] | Some n \<Rightarrow> n)"

subsection \<open>Data of the tracker\<close>

text \<open>\<^verbatim>\<open>processKey\<close> identifies a process on a specific GPU.\<close>

record processKey =
  GPU :: int
  PID :: uint32

text \<open>\<^verbatim>\<open>processState\<close>: the idle state tracked for one key.\<close>

record processState =
  LastActiveTime :: time
  LastSeenTime :: time
  FirstSeenTime :: time
  IsIdle :: bool
  IdleSince :: time

text \<open>\<^verbatim>\<open>ProcessIdleState\<close>: the exported view of one process's idle state.\<close>

record ProcessIdleState =
  GPU :: int
  PID :: uint32
  ProcessName :: string
  UsedMemory :: uint64
  SmUtil :: uint32
  IsIdle :: bool
  IdleDuration :: duration
  IdleMemory :: uint64

text \<open>\<^verbatim>\<open>Tracker\<close>: the state table and the staleness timeout.\<close>

record Tracker =
  states :: "processKey \<rightharpoonup> processState"
  staleTimeout :: duration

definition second :: duration where
  "second = 1000000000"

definition NewTracker :: Tracker where
  "NewTracker = \<lparr>states = Map.empty, staleTimeout = 30 * second\<rparr>"

subsection \<open>\<^verbatim>\<open>Tracker.Update\<close>\<close>

text \<open>The key of a sample: \<^verbatim>\<open>processKey{GPU: p.GPU, PID: p.PID}\<close>.\<close>

definition key_of :: "ProcessSample \<Rightarrow> processKey" where
  "key_of p = \<lparr>processKey.GPU = ProcessSample.GPU p, processKey.PID = ProcessSample.PID p\<rparr>"

text \<open>
  The classification of one sample, given what the table holds under its key
  (\<^verbatim>\<open>st, exists := t.states[key]\<close>). A key that is not tracked gets a fresh state and skips
  the idle transition (\<^verbatim>\<open>goto emit\<close>); \<^verbatim>\<open>IdleSince\<close> is left at the zero value. A tracked key
  has \<^verbatim>\<open>LastSeenTime\<close> set, then follows the branch on \<^verbatim>\<open>p.SmUtil > 0\<close>.
\<close>

definition track :: "time \<Rightarrow> ProcessSample \<Rightarrow> processState option \<Rightarrow> processState" where
  "track now p entry =
     (case entry of
        None \<Rightarrow>
          \<lparr>LastActiveTime = now, LastSeenTime = now, FirstSeenTime = now,
           processState.IsIdle = False, IdleSince = 0\<rparr>
      | Some st0 \<Rightarrow>
          (let st = st0\<lparr>LastSeenTime := now\<rparr> in
           if ProcessSample.SmUtil p > 0 then
             (let st = st\<lparr>LastActiveTime := now\<rparr> in
              if processState.IsIdle st then st\<lparr>processState.IsIdle := False\<rparr> else st)
           else
             (if \<not> processState.IsIdle st
              then st\<lparr>processState.IsIdle := True, IdleSince := now\<rparr> else st)))"

text \<open>The code after the label \<^verbatim>\<open>emit\<close>: the view built from the sample and its state.\<close>

definition emit :: "time \<Rightarrow> (uint32 \<rightharpoonup> string) \<Rightarrow> ProcessSample \<Rightarrow> processState \<Rightarrow> ProcessIdleState" where
  "emit now names p st =
     (let idleDuration = (if processState.IsIdle st then Sub now (IdleSince st) else 0);
          idleMemory = (if processState.IsIdle st then ProcessSample.UsedMemory p else 0)
      in \<lparr>ProcessIdleState.GPU = ProcessSample.GPU p,
          ProcessIdleState.PID = ProcessSample.PID p,
          ProcessName = name_of names (ProcessSample.PID p),
          ProcessIdleState.UsedMemory = ProcessSample.UsedMemory p,
          ProcessIdleState.SmUtil = ProcessSample.SmUtil p,
          ProcessIdleState.IsIdle = processState.IsIdle st,
          IdleDuration = idleDuration, IdleMemory = idleMemory\<rparr>)"

text \<open>
  The variables the first loop of \<^verbatim>\<open>Update\<close> works on: the state table (the pointer \<^verbatim>\<open>st\<close>
  writes through to the entry of the table), the \<^verbatim>\<open>seen\<close> map (a missing key reads as
  false) and the \<^verbatim>\<open>results\<close> slice.
\<close>

record loop_state =
  table :: "processKey \<rightharpoonup> processState"
  seen :: "processKey \<Rightarrow> bool"
  results :: "ProcessIdleState list"

text \<open>One iteration of \<^verbatim>\<open>for _, p := range snap.Processes\<close>.\<close>

definition observe :: "time \<Rightarrow> (uint32 \<rightharpoonup> string) \<Rightarrow> ProcessSample \<Rightarrow> loop_state \<Rightarrow> loop_state" where
  "observe now names p s =
     (let key = key_of p;
          st = track now p (table s key)
      in \<lparr>table = (table s)(key \<mapsto> st),
          seen = (seen s)(key := True),
          results = results s @ [emit now names p st]\<rparr>)"

fun classify :: "time \<Rightarrow> (uint32 \<rightharpoonup> string) \<Rightarrow> ProcessSample list \<Rightarrow> loop_state \<Rightarrow> loop_state" where
  "classify now names [] s = s"
| "classify now names (p # ps) s = classify now names ps (observe now names p s)"

text \<open>
  The second loop, \<^verbatim>\<open>for key, st := range t.states\<close>: an entry is deleted when its key was
  not seen in this cycle and was last seen more than the timeout ago. Each entry is
  visited once and decided on its own fields, so the order of the iteration does not
  matter.
\<close>

definition sweep :: "time \<Rightarrow> duration \<Rightarrow> (processKey \<Rightarrow> bool) \<Rightarrow> (processKey \<rightharpoonup> processState) \<Rightarrow> (processKey \<rightharpoonup> processState)" where
  "sweep now timeout sn tbl =
     (\<lambda>key. case tbl key of
              None \<Rightarrow> None
            | Some st \<Rightarrow> if \<not> sn key \<and> Sub now (LastSeenTime st) > timeout then None else Some st)"

definition loop_init :: "Tracker \<Rightarrow> loop_state" where
  "loop_init t = \<lparr>table = states t, seen = (\<lambda>key. False), results = []\<rparr>"

text \<open>\<^verbatim>\<open>Update\<close> returns the views; the tracker it leaves behind is the first component.\<close>

definition Update :: "Tracker \<Rightarrow> Snapshot \<Rightarrow> Tracker \<times> ProcessIdleState list" where
  "Update t snap =
     (let now = Timestamp snap;
          s = classify now (ProcessNames snap) (Processes snap) (loop_init t)
      in (t\<lparr>states := sweep now (staleTimeout t) (seen s) (table s)\<rparr>, results s))"

text \<open>A sequence of polling cycles, each run on the tracker the previous one left.\<close>

fun run :: "Tracker \<Rightarrow> Snapshot list \<Rightarrow> Tracker" where
  "run t [] = t"
| "run t (snap # snaps) = run (fst (Update t snap)) snaps"

subsection \<open>The helpers of the tracker's tests\<close>

text \<open>
  \<^verbatim>\<open>proc\<close> and \<^verbatim>\<open>makeSnapshot\<close> of \<^verbatim>\<open>tracker_test.go\<close>; the latter names every process
  \<^verbatim>\<open>python\<close>. The tests' \<^verbatim>\<open>1<<30\<close> bytes is \<open>gib\<close>.
\<close>

definition proc :: "int \<Rightarrow> uint32 \<Rightarrow> uint64 \<Rightarrow> uint32 \<Rightarrow> ProcessSample" where
  "proc gpu pid mem smUtil =
     \<lparr>ProcessSample.GPU = gpu, ProcessSample.PID = pid,
      ProcessSample.UsedMemory = mem, ProcessSample.SmUtil = smUtil\<rparr>"

definition makeSnapshot :: "time \<Rightarrow> ProcessSample list \<Rightarrow> Snapshot" where
  "makeSnapshot ts procs =
     \<lparr>Timestamp = ts, Processes = procs,
      ProcessNames = map_of (map (\<lambda>p. (ProcessSample.PID p, ''python'')) procs)\<rparr>"

definition gib :: uint64 where
  "gib = 1073741824"

text \<open>
  The tracker of \<^verbatim>\<open>TestIdleDurationIncreases\<close> after its first two polls: process 1234
  on GPU 0 seen with no utilization at time 0 and again five seconds later.
\<close>

definition after_two_polls :: Tracker where
  "after_two_polls =
     run NewTracker
       [makeSnapshot 0 [proc 0 1234 gib 0], makeSnapshot (5 * second) [proc 0 1234 gib 0]]"

text \<open>The three polls of that test, and the key of its process.\<close>

definition three_polls :: "Snapshot list" where
  "three_polls =
     [makeSnapshot 0 [proc 0 1234 gib 0], makeSnapshot (5 * second) [proc 0 1234 gib 0],
      makeSnapshot (15 * second) [proc 0 1234 gib 0]]"

definition key_1234 :: processKey where
  "key_1234 = \<lparr>processKey.GPU = 0, processKey.PID = 1234\<rparr>"

text \<open>
  \<^verbatim>\<open>TestStaleProcessCleanup\<close> after its first two polls: a timeout of ten seconds, the
  process seen at time 0 and absent five seconds later.
\<close>

definition seen_then_absent :: Tracker where
  "seen_then_absent =
     run (NewTracker\<lparr>staleTimeout := 10 * second\<rparr>)
       [makeSnapshot 0 [proc 0 1234 gib 50], makeSnapshot (5 * second) []]"

text \<open>\<^verbatim>\<open>TestMultiGPUProcesses\<close> after its first poll: process 1234 on GPU 0 and on GPU 1.\<close>

definition multi_gpu_first :: Tracker where
  "multi_gpu_first =
     fst (Update NewTracker (makeSnapshot 0 [proc 0 1234 gib 50, proc 1 1234 (2 * gib) 0]))"

text \<open>
  A time three hundred years of 365 days after time 0, further away than the largest
  duration; and the tracker of \<^verbatim>\<open>TestStaleProcessCleanup\<close> after its first poll, with the
  largest duration as its timeout.
\<close>

definition three_centuries :: time where
  "three_centuries = 9460800000 * second"

definition patient_tracker :: Tracker where
  "patient_tracker =
     fst (Update (NewTracker\<lparr>staleTimeout := maxDuration\<rparr>)
            (makeSnapshot 0 [proc 0 1234 gib 50]))"

text \<open>The key a view is for.\<close>

definition view_key :: "ProcessIdleState \<Rightarrow> processKey" where
  "view_key v = \<lparr>processKey.GPU = ProcessIdleState.GPU v, processKey.PID = ProcessIdleState.PID v\<rparr>"

text \<open>
  What the cycles keep true of a tracked state, for the proofs: it was last seen no later
  than \<open>now\<close>, and while it is idle its \<open>IdleSince\<close> is one of the timestamps \<open>S\<close> and no
  later than \<open>LastSeenTime\<close>.
\<close>

definition state_ok :: "time \<Rightarrow> time set \<Rightarrow> processState \<Rightarrow> bool" where
  "state_ok now S st \<longleftrightarrow>
     LastSeenTime st \<le> now \<and>
     (processState.IsIdle st \<longrightarrow> IdleSince st \<le> LastSeenTime st \<and> IdleSince st \<in> S)"

subsection \<open>\<^verbatim>\<open>Collector.collectProcesses\<close>\<close>

text \<open>
  The device handle is external (NVML). It is modelled by what its two queries return:
  \<^verbatim>\<open>GetComputeRunningProcesses()\<close> as a return code with a list, and
  \<^verbatim>\<open>GetProcessUtilization(lastTS)\<close> as a function of the timestamp it is asked for. Of
  NVML's records only the fields the collector reads are kept. Every return code other
  than the two the collector compares with is \<open>ERROR_OTHER\<close>.
\<close>

datatype Return = SUCCESS | ERROR_NOT_FOUND | ERROR_OTHER

record ProcessInfo =
  Pid :: uint32
  UsedGpuMemory :: uint64

record ProcessUtilizationSample =
  Pid :: uint32
  TimeStamp :: uint64
  SmUtil :: uint32

text \<open>\<^verbatim>\<open>Collector\<close>: the last sample timestamp per device index.\<close>

record Collector =
  lastSampleTime :: "int \<rightharpoonup> uint64"

definition New :: Collector where
  "New = \<lparr>lastSampleTime = Map.empty\<rparr>"

text \<open>Reading a Go map of integers: a missing key reads as zero.\<close>

definition get0 :: "('k \<rightharpoonup> 'v::zero) \<Rightarrow> 'k \<Rightarrow> 'v" where
  "get0 m k = (case m k of None \<Rightarrow> 0 | Some v \<Rightarrow> v)"

text \<open>The loop that finds \<^verbatim>\<open>maxTS\<close>, started at \<^verbatim>\<open>lastTS\<close>.\<close>

fun maxTimeStamp :: "ProcessUtilizationSample list \<Rightarrow> uint64 \<Rightarrow> uint64" where
  "maxTimeStamp [] maxTS = maxTS"
| "maxTimeStamp (s # ss) maxTS =
     maxTimeStamp ss (if TimeStamp s > maxTS then TimeStamp s else maxTS)"

text \<open>The loop that builds \<^verbatim>\<open>utilMap\<close>, from process id to the largest \<^verbatim>\<open>SmUtil\<close>.\<close>

fun buildUtilMap :: "ProcessUtilizationSample list \<Rightarrow> (uint32 \<rightharpoonup> uint32) \<Rightarrow> (uint32 \<rightharpoonup> uint32)" where
  "buildUtilMap [] utilMap = utilMap"
| "buildUtilMap (s # ss) utilMap =
     buildUtilMap ss
       (if ProcessUtilizationSample.SmUtil s > get0 utilMap (ProcessUtilizationSample.Pid s)
        then utilMap(ProcessUtilizationSample.Pid s \<mapsto> ProcessUtilizationSample.SmUtil s)
        else utilMap)"

text \<open>The merge loop: one sample per process of \<^verbatim>\<open>procs\<close>, appended in order.\<close>

definition merge :: "int \<Rightarrow> (uint32 \<rightharpoonup> uint32) \<Rightarrow> ProcessInfo list \<Rightarrow> ProcessSample list" where
  "merge gpuIndex utilMap procs =
     map (\<lambda>p. \<lparr>ProcessSample.GPU = gpuIndex, ProcessSample.PID = ProcessInfo.Pid p,
               ProcessSample.UsedMemory = UsedGpuMemory p,
               ProcessSample.SmUtil = get0 utilMap (ProcessInfo.Pid p)\<rparr>) procs"

text \<open>
  \<^verbatim>\<open>collectProcesses\<close> returns the samples; the collector it leaves behind is the first
  component. A \<^verbatim>\<open>nil\<close> slice is the empty list. The return code of the utilization query
  is only logged.
\<close>

definition collectProcesses ::
  "int \<Rightarrow> Return \<times> ProcessInfo list \<Rightarrow> (uint64 \<Rightarrow> Return \<times> ProcessUtilizationSample list)
     \<Rightarrow> Collector \<Rightarrow> Collector \<times> ProcessSample list" where
  "collectProcesses gpuIndex GetComputeRunningProcesses GetProcessUtilization c =
     (let (ret, procs) = GetComputeRunningProcesses in
      if ret \<noteq> SUCCESS then (c, [])
      else if length procs = 0 then (c, [])
      else
        (let lastTS = get0 (lastSampleTime c) gpuIndex;
             (ret, utilSamples) = GetProcessUtilization lastTS;
             c = (if length utilSamples > 0
                  then c\<lparr>lastSampleTime :=
                         (lastSampleTime c)(gpuIndex \<mapsto> maxTimeStamp utilSamples lastTS)\<rparr>
                  else c);
             utilMap = buildUtilMap utilSamples Map.empty
         in (c, merge gpuIndex utilMap procs)))"

text \<open>
  A device for the examples: two processes hold memory; the utilization query answers
  with the samples of its window that are newer than the timestamp asked for, and with
  \<^verbatim>\<open>ERROR_NOT_FOUND\<close> when there are none. Process 100 appears twice, process 300 holds no
  memory.
\<close>

definition holders :: "ProcessInfo list" where
  "holders = [\<lparr>ProcessInfo.Pid = 100, UsedGpuMemory = 4 * gib\<rparr>,
              \<lparr>ProcessInfo.Pid = 200, UsedGpuMemory = 8 * gib\<rparr>]"

definition window :: "ProcessUtilizationSample list" where
  "window = [\<lparr>ProcessUtilizationSample.Pid = 100, TimeStamp = 1000, SmUtil = 30\<rparr>,
             \<lparr>ProcessUtilizationSample.Pid = 300, TimeStamp = 1500, SmUtil = 10\<rparr>,
             \<lparr>ProcessUtilizationSample.Pid = 100, TimeStamp = 2000, SmUtil = 50\<rparr>]"

definition query_since :: "uint64 \<Rightarrow> Return \<times> ProcessUtilizationSample list" where
  "query_since lastTS =
     (let new = filter (\<lambda>s. TimeStamp s > lastTS) window
      in (if new = [] then ERROR_NOT_FOUND else SUCCESS, new))"

section \<open>Properties of the loops of \<^verbatim>\<open>Update\<close>\<close>

lemmas scenario_defs = Update_def loop_init_def observe_def track_def emit_def key_of_def
  name_of_def sweep_def Let_def proc_def makeSnapshot_def NewTracker_def second_def gib_def
  Sub_def minDuration_def maxDuration_def

lemmas witness_defs = scenario_defs three_polls_def key_1234_def seen_then_absent_def
  multi_gpu_first_def after_two_polls_def three_centuries_def patient_tracker_def

lemmas collector_defs = collectProcesses_def merge_def get0_def New_def holders_def window_def
  query_since_def gib_def Let_def

text \<open>\<^verbatim>\<open>Sub\<close> is the difference wherever the difference is a duration.\<close>

lemma Sub_self: "Sub t t = 0"
  by (simp add: Sub_def minDuration_def maxDuration_def)

lemma Sub_exact:
  "minDuration \<le> t - u \<Longrightarrow> t - u \<le> maxDuration \<Longrightarrow> Sub t u = t - u"
  by (simp add: Sub_def)

lemma Sub_range: "minDuration \<le> Sub t u \<and> Sub t u \<le> maxDuration"
  by (simp add: Sub_def Let_def minDuration_def maxDuration_def)

text \<open>Comparing with a timeout: the saturation shows only at the ends of the range.\<close>

lemma Sub_gt_imp: "minDuration \<le> T \<Longrightarrow> Sub t u > T \<Longrightarrow> t - u > T"
  by (simp add: Sub_def Let_def minDuration_def maxDuration_def split: if_splits)

lemma gt_imp_Sub: "T < maxDuration \<Longrightarrow> t - u > T \<Longrightarrow> Sub t u > T"
  by (simp add: Sub_def Let_def minDuration_def maxDuration_def split: if_splits)

lemma Sub_gt_iff:
  "minDuration \<le> T \<Longrightarrow> T < maxDuration \<Longrightarrow> Sub t u > T \<longleftrightarrow> t - u > T"
  using Sub_gt_imp [of T t u] gt_imp_Sub [of T t u] by blast

lemma classify_append:
  "classify now names (xs @ ys) s = classify now names ys (classify now names xs s)"
  by (induction xs arbitrary: s) simp_all

lemma table_observe:
  "table (observe now names p s) k =
     (if k = key_of p then Some (track now p (table s k)) else table s k)"
  by (simp add: observe_def Let_def)

lemma seen_observe: "seen (observe now names p s) k = (seen s k \<or> k = key_of p)"
  by (simp add: observe_def Let_def)

lemma results_observe:
  "results (observe now names p s) =
     results s @ [emit now names p (track now p (table s (key_of p)))]"
  by (simp add: observe_def Let_def)

lemma table_classify_other:
  "k \<notin> key_of ` set ps \<Longrightarrow> table (classify now names ps s) k = table s k"
  by (induction ps arbitrary: s) (auto simp: table_observe)

lemma seen_classify:
  "seen (classify now names ps s) k = (seen s k \<or> k \<in> key_of ` set ps)"
  by (induction ps arbitrary: s) (auto simp: seen_observe)

lemma dom_classify:
  "dom (table (classify now names ps s)) = dom (table s) \<union> key_of ` set ps"
  by (induction ps arbitrary: s) (auto simp: table_observe split: if_splits)

lemma results_classify_prefix:
  "\<exists>vs. results (classify now names ps s) = results s @ vs \<and> length vs = length ps"
proof (induction ps arbitrary: s)
  case Nil
  show ?case by simp
next
  case (Cons p ps)
  from Cons.IH [of "observe now names p s"] obtain vs where
    "results (classify now names ps (observe now names p s)) =
       results (observe now names p s) @ vs"
    "length vs = length ps" by blast
  then show ?case by (simp add: results_observe)
qed

lemma length_results_classify:
  "length (results (classify now names ps s)) = length (results s) + length ps"
  using results_classify_prefix [of now names ps s] by auto

text \<open>The view appended for a sample is the one of the table as its prefix left it.\<close>

lemma results_classify_nth:
  "results (classify now names (pre @ p # post) s) ! (length (results s) + length pre) =
     emit now names p (track now p (table (classify now names pre s) (key_of p)))"
proof -
  let ?s1 = "classify now names pre s"
  let ?s2 = "observe now names p ?s1"
  have split: "classify now names (pre @ p # post) s = classify now names post ?s2"
    by (simp add: classify_append)
  obtain vs where vs: "results (classify now names post ?s2) = results ?s2 @ vs"
    using results_classify_prefix [of now names post ?s2] by blast
  have len: "length (results ?s1) = length (results s) + length pre"
    by (rule length_results_classify)
  show ?thesis
    by (simp add: split vs results_observe nth_append len)
qed

lemma table_classify_once:
  assumes "key_of p \<notin> key_of ` set pre" and "key_of p \<notin> key_of ` set post"
  shows "table (classify now names (pre @ p # post) s) (key_of p) =
           Some (track now p (table s (key_of p)))"
  using assms by (simp add: classify_append table_classify_other table_observe)

lemma table_loop_init: "table (loop_init t) = states t"
  by (simp add: loop_init_def)

lemma snd_Update:
  "snd (Update t snap) =
     results (classify (Timestamp snap) (ProcessNames snap) (Processes snap) (loop_init t))"
  by (simp add: Update_def Let_def)

lemma states_Update:
  "states (fst (Update t snap)) k =
     (case table (classify (Timestamp snap) (ProcessNames snap) (Processes snap) (loop_init t)) k of
        None \<Rightarrow> None
      | Some st \<Rightarrow>
          if k \<notin> key_of ` set (Processes snap) \<and>
             Sub (Timestamp snap) (LastSeenTime st) > staleTimeout t
          then None else Some st)"
  by (simp add: Update_def Let_def sweep_def seen_classify loop_init_def split: option.split)

lemma staleTimeout_Update: "staleTimeout (fst (Update t snap)) = staleTimeout t"
  by (simp add: Update_def Let_def)

lemma length_Update: "length (snd (Update t snap)) = length (Processes snap)"
  by (simp add: snd_Update length_results_classify loop_init_def)

lemma view_at:
  assumes "Processes snap = pre @ p # post"
  shows "snd (Update t snap) ! length pre =
           emit (Timestamp snap) (ProcessNames snap) p
             (track (Timestamp snap) p
               (table (classify (Timestamp snap) (ProcessNames snap) pre (loop_init t))
                  (key_of p)))"
proof -
  have "results (loop_init t) = []" by (simp add: loop_init_def)
  then show ?thesis
    using results_classify_nth [of "Timestamp snap" "ProcessNames snap" pre p post "loop_init t"]
    by (simp add: snd_Update assms)
qed

text \<open>A key with one sample in the batch: its view and the state the cycle leaves.\<close>

lemma view_first:
  assumes "Processes snap = pre @ p # post"
      and "key_of p \<notin> key_of ` set pre"
  shows "snd (Update t snap) ! length pre =
           emit (Timestamp snap) (ProcessNames snap) p
             (track (Timestamp snap) p (states t (key_of p)))"
  using assms by (simp add: view_at table_classify_other table_loop_init)

lemma state_once:
  assumes "Processes snap = pre @ p # post"
      and "key_of p \<notin> key_of ` set pre" and "key_of p \<notin> key_of ` set post"
  shows "states (fst (Update t snap)) (key_of p) =
           Some (track (Timestamp snap) p (states t (key_of p)))"
  using assms
    table_classify_once [of p pre post "Timestamp snap" "ProcessNames snap" "loop_init t"]
  by (simp add: states_Update table_loop_init)

text \<open>The views of a cycle are for the keys of its batch.\<close>

lemma view_key_emit: "view_key (emit now names p st) = key_of p"
  by (simp add: view_key_def emit_def key_of_def Let_def)

lemma view_keys_classify:
  "view_key ` set (results (classify now names ps s)) =
     view_key ` set (results s) \<union> key_of ` set ps"
  by (induction ps arbitrary: s) (auto simp: results_observe view_key_emit)

lemma view_keys_Update: "view_key ` set (snd (Update t snap)) = key_of ` set (Processes snap)"
  by (simp add: snd_Update view_keys_classify loop_init_def)

lemma view_key_nth:
  assumes "i < length (Processes snap)"
  shows "view_key (snd (Update t snap) ! i) = key_of (Processes snap ! i)"
proof -
  have split: "Processes snap = take i (Processes snap) @ Processes snap ! i #
      drop (Suc i) (Processes snap)"
    using assms by (rule id_take_nth_drop)
  have len: "length (take i (Processes snap)) = i"
    using assms by simp
  show ?thesis
    using view_at [OF split, of t] len by (simp add: view_key_emit)
qed

text \<open>What a cycle does to a key that has no sample in its batch, and to one that has.\<close>

lemma untracked_stays:
  "states t k = None \<Longrightarrow> k \<notin> key_of ` set (Processes snap) \<Longrightarrow>
     states (fst (Update t snap)) k = None"
  by (simp add: states_Update table_classify_other table_loop_init)

lemma untracked_run:
  "states t k = None \<Longrightarrow> \<forall>s \<in> set mid. k \<notin> key_of ` set (Processes s) \<Longrightarrow>
     states (run t mid) k = None"
  by (induction mid arbitrary: t) (simp_all add: untracked_stays)

lemma absent_Update:
  assumes "k \<notin> key_of ` set (Processes snap)"
  shows "states (fst (Update t snap)) k =
     (case states t k of None \<Rightarrow> None
      | Some st \<Rightarrow>
          if Sub (Timestamp snap) (LastSeenTime st) > staleTimeout t then None else Some st)"
  using assms
  by (simp add: states_Update table_classify_other table_loop_init split: option.split)

lemma present_Update:
  assumes "k \<in> key_of ` set (Processes snap)"
  shows "states (fst (Update t snap)) k \<noteq> None"
proof -
  have "k \<in> dom (table (classify (Timestamp snap) (ProcessNames snap) (Processes snap)
      (loop_init t)))"
    using assms by (simp add: dom_classify)
  then show ?thesis
    using assms by (auto simp: states_Update)
qed

text \<open>The first-seen time is written once, when the state is created.\<close>

lemma FirstSeenTime_track: "FirstSeenTime (track now p (Some st)) = FirstSeenTime st"
  by (simp add: track_def Let_def)

lemma kept_by_classify:
  "table s k = Some st0 \<Longrightarrow>
     \<exists>st. table (classify now names ps s) k = Some st \<and> FirstSeenTime st = FirstSeenTime st0"
proof (induction ps arbitrary: s st0)
  case Nil
  then show ?case by simp
next
  case (Cons p ps)
  have "\<exists>st1. table (observe now names p s) k = Some st1 \<and> FirstSeenTime st1 = FirstSeenTime st0"
    using Cons.prems by (auto simp: table_observe FirstSeenTime_track)
  then obtain st1 where st1: "table (observe now names p s) k = Some st1"
    "FirstSeenTime st1 = FirstSeenTime st0" by blast
  from Cons.IH [OF st1(1)] st1(2) show ?case by simp
qed

lemma created_by_classify:
  assumes "table s k = None" and "table (classify now names ps s) k = Some st"
  shows "k \<in> key_of ` set ps \<and> FirstSeenTime st = now"
  using assms
proof (induction ps arbitrary: s)
  case Nil
  then show ?case by simp
next
  case (Cons p ps)
  show ?case
  proof (cases "k = key_of p")
    case True
    have "table (observe now names p s) k = Some (track now p None)"
      using True Cons.prems(1) by (simp add: table_observe)
    from kept_by_classify [OF this, of now names ps] Cons.prems(2) True
    show ?thesis by (simp add: track_def)
  next
    case False
    then have "table (observe now names p s) k = None"
      using Cons.prems(1) by (simp add: table_observe)
    from Cons.IH [OF this] Cons.prems(2) show ?thesis by simp
  qed
qed

text \<open>The invariant of the tracked states, through one sample, one batch, one cycle, a run.\<close>

lemma state_ok_track:
  assumes "\<And>st. entry = Some st \<Longrightarrow> state_ok now S st"
  shows "state_ok now (insert now S) (track now p entry)"
  using assms by (cases entry) (auto simp: state_ok_def track_def Let_def)

lemma state_ok_classify:
  assumes "\<forall>k st. table s k = Some st \<longrightarrow> state_ok now (insert now S) st"
  shows "\<forall>k st. table (classify now names ps s) k = Some st \<longrightarrow> state_ok now (insert now S) st"
  using assms
proof (induction ps arbitrary: s)
  case Nil
  then show ?case by simp
next
  case (Cons p ps)
  have "\<forall>k st. table (observe now names p s) k = Some st \<longrightarrow> state_ok now (insert now S) st"
  proof (intro allI impI)
    fix k st
    assume a: "table (observe now names p s) k = Some st"
    show "state_ok now (insert now S) st"
    proof (cases "k = key_of p")
      case True
      have "state_ok now (insert now (insert now S)) (track now p (table s k))"
        by (rule state_ok_track) (use Cons.prems in blast)
      with a True show ?thesis by (simp add: table_observe)
    next
      case False
      with a Cons.prems show ?thesis by (simp add: table_observe)
    qed
  qed
  from Cons.IH [OF this] show ?case by simp
qed

lemma state_ok_mono: "state_ok T S st \<Longrightarrow> T \<le> T' \<Longrightarrow> S \<subseteq> S' \<Longrightarrow> state_ok T' S' st"
  by (auto simp: state_ok_def)

lemma state_ok_Update:
  assumes "\<forall>k st. states t k = Some st \<longrightarrow> state_ok (Timestamp snap) S st"
  shows "\<forall>k st. states (fst (Update t snap)) k = Some st \<longrightarrow>
           state_ok (Timestamp snap) (insert (Timestamp snap) S) st"
proof -
  have "\<forall>k st. table (loop_init t) k = Some st \<longrightarrow>
          state_ok (Timestamp snap) (insert (Timestamp snap) S) st"
    using assms by (auto simp: table_loop_init intro: state_ok_mono)
  from state_ok_classify [OF this, of "ProcessNames snap" "Processes snap"]
  show ?thesis
    by (auto simp: states_Update split: option.splits if_splits)
qed

lemma state_ok_run:
  assumes "sorted (map Timestamp snaps)"
      and "\<forall>k st. states t k = Some st \<longrightarrow>
             (\<forall>x \<in> set snaps. LastSeenTime st \<le> Timestamp x) \<and>
             (processState.IsIdle st \<longrightarrow> IdleSince st \<le> LastSeenTime st \<and> IdleSince st \<in> S)"
  shows "\<forall>k st. states (run t snaps) k = Some st \<longrightarrow>
           (processState.IsIdle st \<longrightarrow>
              IdleSince st \<le> LastSeenTime st \<and> IdleSince st \<in> S \<union> Timestamp ` set snaps)"
  using assms
proof (induction snaps arbitrary: t S)
  case Nil
  then show ?case by simp
next
  case (Cons snap snaps)
  have ok0: "\<forall>k st. states t k = Some st \<longrightarrow> state_ok (Timestamp snap) S st"
    using Cons.prems(2) by (auto simp: state_ok_def)
  have ok1: "\<forall>k st. states (fst (Update t snap)) k = Some st \<longrightarrow>
           state_ok (Timestamp snap) (insert (Timestamp snap) S) st"
    using state_ok_Update [OF ok0] .
  have later: "\<forall>x \<in> set snaps. Timestamp snap \<le> Timestamp x"
    using Cons.prems(1) by auto
  have pre: "\<forall>k st. states (fst (Update t snap)) k = Some st \<longrightarrow>
             (\<forall>x \<in> set snaps. LastSeenTime st \<le> Timestamp x) \<and>
             (processState.IsIdle st \<longrightarrow>
                IdleSince st \<le> LastSeenTime st \<and> IdleSince st \<in> insert (Timestamp snap) S)"
    using ok1 later by (fastforce simp: state_ok_def)
  have srt: "sorted (map Timestamp snaps)"
    using Cons.prems(1) by simp
  from Cons.IH [OF srt pre] show ?case by auto
qed

section \<open>Properties of the loops of \<^verbatim>\<open>collectProcesses\<close>\<close>

lemma get0_empty: "get0 Map.empty k = 0"
  by (simp add: get0_def)

lemma get0_upd: "get0 (m(k \<mapsto> v)) k' = (if k' = k then v else get0 m k')"
  by (simp add: get0_def)

text \<open>
  The entry of \<^verbatim>\<open>utilMap\<close> for a process id bounds every sample of that id, and is the
  entry the loop started with or the \<^verbatim>\<open>SmUtil\<close> of one of the samples.
\<close>

lemma buildUtilMap_bound:
  "get0 m pid \<le> get0 (buildUtilMap ss m) pid \<and>
   (\<forall>s \<in> set ss. ProcessUtilizationSample.Pid s = pid \<longrightarrow>
      ProcessUtilizationSample.SmUtil s \<le> get0 (buildUtilMap ss m) pid)"
proof (induction ss arbitrary: m)
  case Nil
  show ?case by simp
next
  case (Cons s ss)
  define m' where "m' =
     (if ProcessUtilizationSample.SmUtil s > get0 m (ProcessUtilizationSample.Pid s)
      then m(ProcessUtilizationSample.Pid s \<mapsto> ProcessUtilizationSample.SmUtil s) else m)"
  have unfold: "buildUtilMap (s # ss) m = buildUtilMap ss m'"
    by (simp add: m'_def)
  have step: "get0 m pid \<le> get0 m' pid"
    by (auto simp: m'_def get0_upd)
  have here: "ProcessUtilizationSample.Pid s = pid \<Longrightarrow>
      ProcessUtilizationSample.SmUtil s \<le> get0 m' pid"
    by (auto simp: m'_def get0_upd)
  have ih: "get0 m' pid \<le> get0 (buildUtilMap ss m') pid"
    and ih2: "\<forall>s \<in> set ss. ProcessUtilizationSample.Pid s = pid \<longrightarrow>
      ProcessUtilizationSample.SmUtil s \<le> get0 (buildUtilMap ss m') pid"
    using Cons.IH [of m'] by simp_all
  show ?case
    unfolding unfold using step here ih ih2 by (auto intro: order_trans)
qed

lemma buildUtilMap_attained:
  "get0 (buildUtilMap ss m) pid = get0 m pid \<or>
   (\<exists>s \<in> set ss. ProcessUtilizationSample.Pid s = pid \<and>
      ProcessUtilizationSample.SmUtil s = get0 (buildUtilMap ss m) pid)"
proof (induction ss arbitrary: m)
  case Nil
  show ?case by simp
next
  case (Cons s ss)
  define m' where "m' =
     (if ProcessUtilizationSample.SmUtil s > get0 m (ProcessUtilizationSample.Pid s)
      then m(ProcessUtilizationSample.Pid s \<mapsto> ProcessUtilizationSample.SmUtil s) else m)"
  have unfold: "buildUtilMap (s # ss) m = buildUtilMap ss m'"
    by (simp add: m'_def)
  have here: "get0 m' pid = get0 m pid \<or>
      (ProcessUtilizationSample.Pid s = pid \<and> ProcessUtilizationSample.SmUtil s = get0 m' pid)"
    by (simp add: m'_def get0_upd)
  show ?case
    unfolding unfold using Cons.IH [of m'] here by auto
qed

lemma buildUtilMap_absent:
  assumes "\<not> (\<exists>s \<in> set ss. ProcessUtilizationSample.Pid s = pid)"
  shows "get0 (buildUtilMap ss Map.empty) pid = 0"
  using buildUtilMap_attained [of ss Map.empty pid] assms by (auto simp: get0_empty)

lemma buildUtilMap_Max:
  assumes "\<exists>s \<in> set ss. ProcessUtilizationSample.Pid s = pid"
  shows "get0 (buildUtilMap ss Map.empty) pid =
     Max (ProcessUtilizationSample.SmUtil ` {s \<in> set ss. ProcessUtilizationSample.Pid s = pid})"
proof -
  let ?u = "get0 (buildUtilMap ss Map.empty) pid"
  let ?A = "ProcessUtilizationSample.SmUtil ` {s \<in> set ss. ProcessUtilizationSample.Pid s = pid}"
  have ub: "\<forall>a \<in> ?A. a \<le> ?u"
    using buildUtilMap_bound [of Map.empty pid ss] by auto
  have "?u \<in> ?A"
  proof (cases "?u = 0")
    case True
    from assms obtain s where s: "s \<in> set ss" "ProcessUtilizationSample.Pid s = pid" by blast
    then have "ProcessUtilizationSample.SmUtil s \<le> 0"
      using ub True by auto
    then have "ProcessUtilizationSample.SmUtil s = 0" by simp
    with s True show ?thesis by force
  next
    case False
    with buildUtilMap_attained [of ss Map.empty pid] obtain s where
      "s \<in> set ss" "ProcessUtilizationSample.Pid s = pid"
      "ProcessUtilizationSample.SmUtil s = ?u"
      by (auto simp: get0_empty)
    then show ?thesis by force
  qed
  with ub show ?thesis
    by (intro Max_eqI [symmetric]) auto
qed

text \<open>\<^verbatim>\<open>maxTS\<close> ends as the largest of \<^verbatim>\<open>lastTS\<close> and the samples' timestamps.\<close>

lemma maxTimeStamp_Max:
  "maxTimeStamp ss m = Max (insert m (TimeStamp ` set ss))"
proof (induction ss arbitrary: m)
  case Nil
  show ?case by simp
next
  case (Cons s ss)
  let ?B = "TimeStamp ` set ss"
  have fin: "finite (insert (TimeStamp s) ?B)" "finite (insert m ?B)" by simp_all
  show ?case
  proof (cases "TimeStamp s > m")
    case True
    have "Max (insert m (insert (TimeStamp s) ?B)) = max m (Max (insert (TimeStamp s) ?B))"
      by (rule Max_insert) simp_all
    moreover have "TimeStamp s \<le> Max (insert (TimeStamp s) ?B)"
      by (rule Max_ge) simp_all
    ultimately have "Max (insert m (insert (TimeStamp s) ?B)) = Max (insert (TimeStamp s) ?B)"
      using True by (simp add: max_absorb2 order_trans [OF less_imp_le])
    with True Cons.IH [of "TimeStamp s"] show ?thesis by simp
  next
    case False
    have "Max (insert (TimeStamp s) (insert m ?B)) = max (TimeStamp s) (Max (insert m ?B))"
      by (rule Max_insert) simp_all
    moreover have "m \<le> Max (insert m ?B)"
      by (rule Max_ge) simp_all
    moreover have "TimeStamp s \<le> m"
      using False by simp
    ultimately have "Max (insert (TimeStamp s) (insert m ?B)) = Max (insert m ?B)"
      by (simp add: max_absorb2 order_trans [of "TimeStamp s" m])
    with False Cons.IH [of m] show ?thesis by (simp add: insert_commute)
  qed
qed

lemma maxTimeStamp_max:
  assumes "ss \<noteq> []"
  shows "maxTimeStamp ss m = max m (Max (TimeStamp ` set ss))"
  using assms by (simp add: maxTimeStamp_Max)

text \<open>The two results of \<^verbatim>\<open>collectProcesses\<close>, branch by branch.\<close>

lemma snd_collectProcesses:
  "snd (collectProcesses gpuIndex (r, procs) G c) =
     (if r = SUCCESS
      then merge gpuIndex
             (buildUtilMap (snd (G (get0 (lastSampleTime c) gpuIndex))) Map.empty) procs
      else [])"
  by (cases procs) (simp_all add: collectProcesses_def Let_def merge_def split: prod.split)

lemma fst_collectProcesses:
  "fst (collectProcesses gpuIndex (r, procs) G c) =
     (if r = SUCCESS \<and> procs \<noteq> [] \<and> snd (G (get0 (lastSampleTime c) gpuIndex)) \<noteq> []
      then c\<lparr>lastSampleTime := (lastSampleTime c)(gpuIndex \<mapsto>
               maxTimeStamp (snd (G (get0 (lastSampleTime c) gpuIndex)))
                 (get0 (lastSampleTime c) gpuIndex))\<rparr>
      else c)"
  by (simp add: collectProcesses_def Let_def split: prod.split)

section \<open>The claims about the idle tracker\<close>

text \<open>
  C1. Every view that \<open>Update\<close> emits is derived from the state its sample's key has at
  that moment (the table after the samples up to and including this one): the view is
  idle exactly when that state is; when it is not idle, its idle duration and idle
  memory are zero; when it is idle, its idle duration is \<open>Sub\<close> of the cycle's timestamp
  and the state's \<open>IdleSince\<close>, which is their difference whenever the difference is a
  duration, and its idle memory is the memory the sample holds. There is one view per
  sample, so this covers every view.
\<close>

theorem Update_view_postcondition:
  assumes "i < length (Processes snap)"
  shows "length (snd (Update t snap)) = length (Processes snap) \<and>
    (\<exists>st. table (classify (Timestamp snap) (ProcessNames snap)
                 (take (Suc i) (Processes snap)) (loop_init t))
              (key_of (Processes snap ! i)) = Some st \<and>
       ProcessIdleState.IsIdle (snd (Update t snap) ! i) = processState.IsIdle st \<and>
       (\<not> ProcessIdleState.IsIdle (snd (Update t snap) ! i) \<longrightarrow>
          IdleDuration (snd (Update t snap) ! i) = 0 \<and>
          IdleMemory (snd (Update t snap) ! i) = 0) \<and>
       (ProcessIdleState.IsIdle (snd (Update t snap) ! i) \<longrightarrow>
          IdleDuration (snd (Update t snap) ! i) = Sub (Timestamp snap) (IdleSince st) \<and>
          (minDuration \<le> Timestamp snap - IdleSince st \<and>
           Timestamp snap - IdleSince st \<le> maxDuration \<longrightarrow>
             IdleDuration (snd (Update t snap) ! i) = Timestamp snap - IdleSince st) \<and>
          IdleMemory (snd (Update t snap) ! i) =
            ProcessSample.UsedMemory (Processes snap ! i)))"
proof -
  let ?ps = "Processes snap"
  let ?now = "Timestamp snap"
  let ?names = "ProcessNames snap"
  let ?p = "?ps ! i"
  let ?pre = "take i ?ps"
  let ?st = "track ?now ?p (table (classify ?now ?names ?pre (loop_init t)) (key_of ?p))"
  have split: "?ps = ?pre @ ?p # drop (Suc i) ?ps"
    using assms by (rule id_take_nth_drop)
  have len: "length ?pre = i"
    using assms by simp
  have v: "snd (Update t snap) ! i = emit ?now ?names ?p ?st"
    using view_at [OF split, of t] len by simp
  have tk: "take (Suc i) ?ps = ?pre @ [?p]"
    using assms by (rule take_Suc_conv_app_nth)
  have tb: "table (classify ?now ?names (take (Suc i) ?ps) (loop_init t)) (key_of ?p) = Some ?st"
    by (simp add: tk classify_append table_observe)
  show ?thesis
    by (simp add: length_Update tb v emit_def Let_def Sub_exact)
qed

text \<open>The third poll of \<^verbatim>\<open>TestIdleDurationIncreases\<close>: idle for ten seconds, holding 1 GiB.\<close>

theorem Update_view_postcondition_witness:
  "minDuration \<le> 15 * second - 5 * second \<and> 15 * second - 5 * second \<le> maxDuration \<and>
   snd (Update after_two_polls (makeSnapshot (15 * second) [proc 0 1234 gib 0])) ! 0 =
     \<lparr>ProcessIdleState.GPU = 0, PID = 1234, ProcessName = ''python'', UsedMemory = gib,
      SmUtil = 0, IsIdle = True, IdleDuration = 10 * second, IdleMemory = gib\<rparr>"
proof -
  have h: "0 < length (Processes (makeSnapshot (15 * second) [proc 0 1234 gib 0]))"
    by (simp add: makeSnapshot_def)
  from Update_view_postcondition [OF h, of after_two_polls]
  show ?thesis
    by (simp add: after_two_polls_def scenario_defs)
qed

text \<open>
  The idle duration is not the difference for every pair of timestamps: a process idle
  since second 5 and seen again three hundred years later has the largest duration as
  its idle duration, which is less than the time that passed.
\<close>

theorem Update_view_postcondition_counterexample:
  "ProcessIdleState.IsIdle
     (snd (Update after_two_polls (makeSnapshot three_centuries [proc 0 1234 gib 0])) ! 0) \<and>
   table (classify three_centuries
            (ProcessNames (makeSnapshot three_centuries [proc 0 1234 gib 0]))
            (take (Suc 0) [proc 0 1234 gib 0]) (loop_init after_two_polls)) key_1234 =
     Some \<lparr>LastActiveTime = 0, LastSeenTime = three_centuries, FirstSeenTime = 0,
           IsIdle = True, IdleSince = 5 * second\<rparr> \<and>
   IdleDuration
     (snd (Update after_two_polls (makeSnapshot three_centuries [proc 0 1234 gib 0])) ! 0) =
     maxDuration \<and>
   IdleDuration
     (snd (Update after_two_polls (makeSnapshot three_centuries [proc 0 1234 gib 0])) ! 0) \<noteq>
     three_centuries - 5 * second"
  by (simp add: witness_defs)

text \<open>
  C2. A key that the table does not hold, at its first sample in a cycle's batch, with any
  utilization: the sample creates the state with \<open>FirstSeenTime\<close>, \<open>LastSeenTime\<close> and
  \<open>LastActiveTime\<close> at the cycle's timestamp and \<open>IsIdle\<close> false (\<open>IdleSince\<close> stays at the
  zero value), and its view is not idle, with idle duration and idle memory zero. When
  the key has no other sample in the batch, this is the state the cycle leaves.
\<close>

theorem Update_first_observation:
  assumes "Processes snap = pre @ p # post"
      and "key_of p \<notin> key_of ` set pre"
      and "states t (key_of p) = None"
  shows "table (classify (Timestamp snap) (ProcessNames snap) (pre @ [p]) (loop_init t)) (key_of p) =
           Some \<lparr>LastActiveTime = Timestamp snap, LastSeenTime = Timestamp snap,
                 FirstSeenTime = Timestamp snap, IsIdle = False, IdleSince = 0\<rparr> \<and>
         \<not> ProcessIdleState.IsIdle (snd (Update t snap) ! length pre) \<and>
         IdleDuration (snd (Update t snap) ! length pre) = 0 \<and>
         IdleMemory (snd (Update t snap) ! length pre) = 0 \<and>
         (key_of p \<notin> key_of ` set post \<longrightarrow>
            states (fst (Update t snap)) (key_of p) =
              Some \<lparr>LastActiveTime = Timestamp snap, LastSeenTime = Timestamp snap,
                    FirstSeenTime = Timestamp snap, IsIdle = False, IdleSince = 0\<rparr>)"
proof -
  have fresh: "track (Timestamp snap) p (states t (key_of p)) =
      \<lparr>LastActiveTime = Timestamp snap, LastSeenTime = Timestamp snap,
       FirstSeenTime = Timestamp snap, IsIdle = False, IdleSince = 0\<rparr>"
    using assms(3) by (simp add: track_def)
  have a: "table (classify (Timestamp snap) (ProcessNames snap) (pre @ [p]) (loop_init t)) (key_of p) =
      Some (track (Timestamp snap) p (states t (key_of p)))"
    using assms(2)
    by (simp add: classify_append table_observe table_classify_other table_loop_init)
  have v: "snd (Update t snap) ! length pre =
      emit (Timestamp snap) (ProcessNames snap) p (track (Timestamp snap) p (states t (key_of p)))"
    using assms(1,2) by (rule view_first)
  have s: "key_of p \<notin> key_of ` set post \<Longrightarrow>
      states (fst (Update t snap)) (key_of p) = Some (track (Timestamp snap) p (states t (key_of p)))"
    using assms(1,2) by (rule state_once)
  show ?thesis
    using a s by (simp add: v fresh emit_def)
qed

text \<open>The poll of \<^verbatim>\<open>TestNewProcessStartsActive\<close>.\<close>

theorem Update_first_observation_witness:
  "table (classify 0 (ProcessNames (makeSnapshot 0 [proc 0 1234 gib 0])) ([] @ [proc 0 1234 gib 0])
       (loop_init NewTracker)) (key_of (proc 0 1234 gib 0)) =
     Some \<lparr>LastActiveTime = 0, LastSeenTime = 0, FirstSeenTime = 0, IsIdle = False, IdleSince = 0\<rparr> \<and>
   snd (Update NewTracker (makeSnapshot 0 [proc 0 1234 gib 0])) ! 0 =
     \<lparr>ProcessIdleState.GPU = 0, PID = 1234, ProcessName = ''python'', UsedMemory = gib,
      SmUtil = 0, IsIdle = False, IdleDuration = 0, IdleMemory = 0\<rparr> \<and>
   states (fst (Update NewTracker (makeSnapshot 0 [proc 0 1234 gib 0])))
       (key_of (proc 0 1234 gib 0)) =
     Some \<lparr>LastActiveTime = 0, LastSeenTime = 0, FirstSeenTime = 0, IsIdle = False, IdleSince = 0\<rparr>"
proof -
  have h1: "Processes (makeSnapshot 0 [proc 0 1234 gib 0]) = [] @ proc 0 1234 gib 0 # []"
    by (simp add: makeSnapshot_def)
  have h2: "key_of (proc 0 1234 gib 0) \<notin> key_of ` set []"
    by simp
  have h3: "states NewTracker (key_of (proc 0 1234 gib 0)) = None"
    by (simp add: NewTracker_def)
  from Update_first_observation [OF h1 h2 h3]
  show ?thesis
    by (simp add: scenario_defs)
qed

text \<open>
  C3. A key that is not tracked is seen in three successive cycles, with one sample in
  the batch of each, the second and third sample with utilization 0. The view of the
  second cycle is idle with idle duration 0, and the view of the third cycle is idle
  with idle duration \<open>Sub\<close> of the third timestamp and the second, which is the third
  timestamp minus the second whenever that difference is a duration. Neither the
  utilization of the first sample nor the order of the timestamps is needed.
\<close>

theorem two_strikes_idle:
  assumes "Processes snap0 = pre0 @ p0 # post0"
      and "key_of p0 \<notin> key_of ` set pre0" and "key_of p0 \<notin> key_of ` set post0"
      and "states t (key_of p0) = None"
      and "Processes snap1 = pre1 @ p1 # post1" and "key_of p1 = key_of p0"
      and "key_of p0 \<notin> key_of ` set pre1" and "key_of p0 \<notin> key_of ` set post1"
      and "ProcessSample.SmUtil p1 = 0"
      and "Processes snap2 = pre2 @ p2 # post2" and "key_of p2 = key_of p0"
      and "key_of p0 \<notin> key_of ` set pre2"
      and "ProcessSample.SmUtil p2 = 0"
  shows "ProcessIdleState.IsIdle (snd (Update (fst (Update t snap0)) snap1) ! length pre1) \<and>
         IdleDuration (snd (Update (fst (Update t snap0)) snap1) ! length pre1) = 0 \<and>
         ProcessIdleState.IsIdle
           (snd (Update (fst (Update (fst (Update t snap0)) snap1)) snap2) ! length pre2) \<and>
         IdleDuration
           (snd (Update (fst (Update (fst (Update t snap0)) snap1)) snap2) ! length pre2) =
             Sub (Timestamp snap2) (Timestamp snap1) \<and>
         (minDuration \<le> Timestamp snap2 - Timestamp snap1 \<and>
          Timestamp snap2 - Timestamp snap1 \<le> maxDuration \<longrightarrow>
            IdleDuration
              (snd (Update (fst (Update (fst (Update t snap0)) snap1)) snap2) ! length pre2) =
                Timestamp snap2 - Timestamp snap1)"
proof -
  let ?t1 = "fst (Update t snap0)"
  let ?t2 = "fst (Update ?t1 snap1)"
  let ?st0 = "track (Timestamp snap0) p0 None"
  let ?st1 = "track (Timestamp snap1) p1 (Some ?st0)"
  have s0: "states ?t1 (key_of p0) = Some ?st0"
    using state_once [OF assms(1,2,3), of t] assms(4) by simp
  have k1: "key_of p1 \<notin> key_of ` set pre1" "key_of p1 \<notin> key_of ` set post1"
    using assms(6,7,8) by simp_all
  have k2: "key_of p2 \<notin> key_of ` set pre2"
    using assms(11,12) by simp
  have s1: "states ?t2 (key_of p0) = Some ?st1"
    using state_once [OF assms(5) k1, of ?t1] s0 assms(6) by simp
  have v1: "snd (Update ?t1 snap1) ! length pre1 =
      emit (Timestamp snap1) (ProcessNames snap1) p1 ?st1"
    using view_first [OF assms(5) k1(1), of ?t1] s0 assms(6) by simp
  have v2: "snd (Update ?t2 snap2) ! length pre2 =
      emit (Timestamp snap2) (ProcessNames snap2) p2 (track (Timestamp snap2) p2 (Some ?st1))"
    using view_first [OF assms(10) k2, of ?t2] s1 assms(11) by simp
  show ?thesis
    using assms(9,13) by (simp add: v1 v2 emit_def track_def Let_def Sub_self Sub_exact)
qed

text \<open>The three polls of \<^verbatim>\<open>TestIdleDurationIncreases\<close>, at 0, 5 and 15 seconds.\<close>

theorem two_strikes_idle_witness:
  "minDuration \<le> 15 * second - 5 * second \<and> 15 * second - 5 * second \<le> maxDuration \<and>
   snd (Update (fst (Update NewTracker (makeSnapshot 0 [proc 0 1234 gib 0])))
          (makeSnapshot (5 * second) [proc 0 1234 gib 0])) ! 0 =
     \<lparr>ProcessIdleState.GPU = 0, PID = 1234, ProcessName = ''python'', UsedMemory = gib,
      SmUtil = 0, IsIdle = True, IdleDuration = 0, IdleMemory = gib\<rparr> \<and>
   snd (Update (fst (Update (fst (Update NewTracker (makeSnapshot 0 [proc 0 1234 gib 0])))
                  (makeSnapshot (5 * second) [proc 0 1234 gib 0])))
          (makeSnapshot (15 * second) [proc 0 1234 gib 0])) ! 0 =
     \<lparr>ProcessIdleState.GPU = 0, PID = 1234, ProcessName = ''python'', UsedMemory = gib,
      SmUtil = 0, IsIdle = True, IdleDuration = 10 * second, IdleMemory = gib\<rparr>"
proof -
  let ?p = "proc 0 1234 gib 0"
  have h1: "Processes (makeSnapshot 0 [?p]) = [] @ ?p # []"
    and h5: "Processes (makeSnapshot (5 * second) [?p]) = [] @ ?p # []"
    and h10: "Processes (makeSnapshot (15 * second) [?p]) = [] @ ?p # []"
    by (simp_all add: makeSnapshot_def)
  have h2: "key_of ?p \<notin> key_of ` set []"
    by simp
  have h4: "states NewTracker (key_of ?p) = None"
    by (simp add: NewTracker_def)
  have h9: "ProcessSample.SmUtil ?p = 0"
    by (simp add: proc_def)
  from two_strikes_idle [OF h1 h2 h2 h4 h5 refl h2 h2 h9 h10 refl h2 h9]
  show ?thesis
    by (simp add: scenario_defs)
qed

text \<open>
  With the third poll three hundred years after the second, the view of the third cycle
  is idle, but its idle duration is not the third timestamp minus the second.
\<close>

theorem two_strikes_idle_counterexample:
  "(0::time) < 5 * second \<and> 5 * second < three_centuries \<and>
   snd (Update (fst (Update NewTracker (makeSnapshot 0 [proc 0 1234 gib 0])))
          (makeSnapshot (5 * second) [proc 0 1234 gib 0])) ! 0 =
     \<lparr>ProcessIdleState.GPU = 0, PID = 1234, ProcessName = ''python'', UsedMemory = gib,
      SmUtil = 0, IsIdle = True, IdleDuration = 0, IdleMemory = gib\<rparr> \<and>
   ProcessIdleState.IsIdle
     (snd (Update (fst (Update (fst (Update NewTracker (makeSnapshot 0 [proc 0 1234 gib 0])))
                         (makeSnapshot (5 * second) [proc 0 1234 gib 0])))
            (makeSnapshot three_centuries [proc 0 1234 gib 0])) ! 0) \<and>
   IdleDuration
     (snd (Update (fst (Update (fst (Update NewTracker (makeSnapshot 0 [proc 0 1234 gib 0])))
                         (makeSnapshot (5 * second) [proc 0 1234 gib 0])))
            (makeSnapshot three_centuries [proc 0 1234 gib 0])) ! 0) \<noteq>
     three_centuries - 5 * second"
  by (simp add: witness_defs)

text \<open>
  C4. A tracked key that is idle, with one sample in the batch and that sample's
  utilization above 0: the cycle sets \<open>LastSeenTime\<close> and \<open>LastActiveTime\<close> to its
  timestamp and \<open>IsIdle\<close> to false, leaving the other fields, and the view is not idle
  with idle duration and idle memory zero, whatever \<open>IdleSince\<close> was.
\<close>

theorem active_clears_idle:
  assumes "Processes snap = pre @ p # post"
      and "key_of p \<notin> key_of ` set pre" and "key_of p \<notin> key_of ` set post"
      and "states t (key_of p) = Some st" and "processState.IsIdle st"
      and "ProcessSample.SmUtil p > 0"
  shows "states (fst (Update t snap)) (key_of p) =
           Some (st\<lparr>LastSeenTime := Timestamp snap, LastActiveTime := Timestamp snap,
                    processState.IsIdle := False\<rparr>) \<and>
         \<not> ProcessIdleState.IsIdle (snd (Update t snap) ! length pre) \<and>
         IdleDuration (snd (Update t snap) ! length pre) = 0 \<and>
         IdleMemory (snd (Update t snap) ! length pre) = 0"
proof -
  have tr: "track (Timestamp snap) p (states t (key_of p)) =
      st\<lparr>LastSeenTime := Timestamp snap, LastActiveTime := Timestamp snap,
         processState.IsIdle := False\<rparr>"
    using assms(4,5,6) by (simp add: track_def Let_def)
  show ?thesis
    using state_once [OF assms(1,2,3), of t] view_first [OF assms(1,2), of t]
    by (simp add: tr emit_def)
qed

text \<open>As in \<^verbatim>\<open>TestIdleResetsWhenActive\<close>: idle since second 5, active at second 70.\<close>

theorem active_clears_idle_witness:
  "states (fst (Update after_two_polls (makeSnapshot (70 * second) [proc 0 1234 gib 99])))
       (key_of (proc 0 1234 gib 99)) =
     Some \<lparr>LastActiveTime = 70 * second, LastSeenTime = 70 * second, FirstSeenTime = 0,
           IsIdle = False, IdleSince = 5 * second\<rparr> \<and>
   snd (Update after_two_polls (makeSnapshot (70 * second) [proc 0 1234 gib 99])) ! 0 =
     \<lparr>ProcessIdleState.GPU = 0, PID = 1234, ProcessName = ''python'', UsedMemory = gib,
      SmUtil = 99, IsIdle = False, IdleDuration = 0, IdleMemory = 0\<rparr>"
proof -
  let ?p = "proc 0 1234 gib 99"
  let ?st = "\<lparr>LastActiveTime = 0, LastSeenTime = 5 * second, FirstSeenTime = 0,
           IsIdle = True, IdleSince = 5 * second\<rparr>"
  have h1: "Processes (makeSnapshot (70 * second) [?p]) = [] @ ?p # []"
    by (simp add: makeSnapshot_def)
  have h2: "key_of ?p \<notin> key_of ` set []"
    by simp
  have h4: "states after_two_polls (key_of ?p) = Some ?st"
    by (simp add: after_two_polls_def scenario_defs)
  have h5: "processState.IsIdle ?st"
    by simp
  have h6: "ProcessSample.SmUtil ?p > 0"
    by (simp add: proc_def)
  from active_clears_idle [OF h1 h2 h2 h4 h5 h6]
  show ?thesis
    by (simp add: after_two_polls_def scenario_defs)
qed

text \<open>
  C5. From a tracker with an empty table, after any sequence of cycles whose timestamps
  never decrease, every tracked state that is idle has its \<open>IdleSince\<close> set, that is,
  equal to the timestamp of one of the cycles run, and no later than its \<open>LastSeenTime\<close>.
  For any cycle on any tracker: a key that was not tracked and is tracked afterwards has
  a sample in the batch, and its state has the cycle's timestamp as \<open>FirstSeenTime\<close>;
  the classification loop leaves every tracked key tracked; and a key that was tracked
  and is not afterwards was removed by the sweep, whose condition held for it (not seen
  in this cycle, and \<open>Sub\<close> of the timestamp and its \<open>LastSeenTime\<close> more than the timeout;
  for a timeout that is a duration, so not below the smallest one, that is last seen
  more than the timeout ago).
\<close>

theorem idle_invariant_and_lifecycle:
  "(states start = Map.empty \<and> sorted (map Timestamp snaps) \<and>
    states (run start snaps) key = Some st \<and> processState.IsIdle st \<longrightarrow>
      IdleSince st \<in> Timestamp ` set snaps \<and> IdleSince st \<le> LastSeenTime st) \<and>
   (states t k = None \<and> states (fst (Update t snap)) k = Some st' \<longrightarrow>
      k \<in> key_of ` set (Processes snap) \<and> FirstSeenTime st' = Timestamp snap) \<and>
   (states t k \<noteq> None \<longrightarrow>
      table (classify (Timestamp snap) (ProcessNames snap) (Processes snap) (loop_init t)) k
        \<noteq> None) \<and>
   (states t k \<noteq> None \<and> states (fst (Update t snap)) k = None \<longrightarrow>
      (\<exists>st. table (classify (Timestamp snap) (ProcessNames snap) (Processes snap)
                 (loop_init t)) k = Some st \<and>
            \<not> seen (classify (Timestamp snap) (ProcessNames snap) (Processes snap)
                 (loop_init t)) k \<and>
            Sub (Timestamp snap) (LastSeenTime st) > staleTimeout t \<and>
            (minDuration \<le> staleTimeout t \<longrightarrow>
               Timestamp snap - LastSeenTime st > staleTimeout t)))"
proof (intro conjI impI)
  assume a: "states start = Map.empty \<and> sorted (map Timestamp snaps) \<and>
    states (run start snaps) key = Some st \<and> processState.IsIdle st"
  have "\<forall>k st. states start k = Some st \<longrightarrow>
             (\<forall>x \<in> set snaps. LastSeenTime st \<le> Timestamp x) \<and>
             (processState.IsIdle st \<longrightarrow> IdleSince st \<le> LastSeenTime st \<and> IdleSince st \<in> {})"
    using a by simp
  from state_ok_run [OF _ this] a
  show "IdleSince st \<in> Timestamp ` set snaps" and "IdleSince st \<le> LastSeenTime st"
    by auto
next
  assume a: "states t k = None \<and> states (fst (Update t snap)) k = Some st'"
  then have "table (classify (Timestamp snap) (ProcessNames snap) (Processes snap) (loop_init t)) k
      = Some st'"
    by (auto simp: states_Update split: option.splits if_splits)
  from created_by_classify [OF _ this] a
  show "k \<in> key_of ` set (Processes snap)" and "FirstSeenTime st' = Timestamp snap"
    by (simp_all add: table_loop_init)
next
  assume "states t k \<noteq> None"
  then have "k \<in> dom (table (classify (Timestamp snap) (ProcessNames snap) (Processes snap)
      (loop_init t)))"
    by (auto simp: dom_classify table_loop_init)
  then show "table (classify (Timestamp snap) (ProcessNames snap) (Processes snap) (loop_init t)) k
        \<noteq> None"
    by auto
next
  assume "states t k \<noteq> None \<and> states (fst (Update t snap)) k = None"
  then have "k \<in> dom (table (classify (Timestamp snap) (ProcessNames snap) (Processes snap)
      (loop_init t)))" and none: "states (fst (Update t snap)) k = None"
    by (auto simp: dom_classify table_loop_init)
  then obtain st where
    st: "table (classify (Timestamp snap) (ProcessNames snap) (Processes snap) (loop_init t)) k
      = Some st"
    by auto
  with none show "\<exists>st. table (classify (Timestamp snap) (ProcessNames snap) (Processes snap)
                 (loop_init t)) k = Some st \<and>
            \<not> seen (classify (Timestamp snap) (ProcessNames snap) (Processes snap)
                 (loop_init t)) k \<and>
            Sub (Timestamp snap) (LastSeenTime st) > staleTimeout t \<and>
            (minDuration \<le> staleTimeout t \<longrightarrow>
               Timestamp snap - LastSeenTime st > staleTimeout t)"
    by (auto simp: states_Update seen_classify loop_init_def Sub_gt_imp split: if_splits)
qed

text \<open>
  The three polls of \<^verbatim>\<open>TestIdleDurationIncreases\<close> for the invariant and the creation, the
  third poll of \<^verbatim>\<open>TestStaleProcessCleanup\<close> for the deletion.
\<close>

theorem idle_invariant_and_lifecycle_witness:
  "states (run NewTracker three_polls) key_1234 =
     Some \<lparr>LastActiveTime = 0, LastSeenTime = 15 * second, FirstSeenTime = 0,
           IsIdle = True, IdleSince = 5 * second\<rparr> \<and>
   sorted (map Timestamp three_polls) \<and>
   5 * second \<in> Timestamp ` set three_polls \<and>
   states NewTracker key_1234 = None \<and>
   states (fst (Update NewTracker (makeSnapshot 0 [proc 0 1234 gib 0]))) key_1234 =
     Some \<lparr>LastActiveTime = 0, LastSeenTime = 0, FirstSeenTime = 0,
           IsIdle = False, IdleSince = 0\<rparr> \<and>
   key_1234 \<in> key_of ` set (Processes (makeSnapshot 0 [proc 0 1234 gib 0])) \<and>
   states seen_then_absent key_1234 =
     Some \<lparr>LastActiveTime = 0, LastSeenTime = 0, FirstSeenTime = 0,
           IsIdle = False, IdleSince = 0\<rparr> \<and>
   states (fst (Update seen_then_absent (makeSnapshot (16 * second) []))) key_1234 = None \<and>
   minDuration \<le> staleTimeout seen_then_absent \<and>
   staleTimeout seen_then_absent < Timestamp (makeSnapshot (16 * second) []) - 0"
  using idle_invariant_and_lifecycle [where start = NewTracker and snaps = three_polls
      and key = key_1234
      and st = "\<lparr>LastActiveTime = 0, LastSeenTime = 15 * second, FirstSeenTime = 0,
           IsIdle = True, IdleSince = 5 * second\<rparr>"
      and t = NewTracker and k = key_1234 and snap = "makeSnapshot 0 [proc 0 1234 gib 0]"
      and st' = "\<lparr>LastActiveTime = 0, LastSeenTime = 0, FirstSeenTime = 0,
           IsIdle = False, IdleSince = 0\<rparr>"]
    idle_invariant_and_lifecycle [where t = seen_then_absent and k = key_1234
      and snap = "makeSnapshot (16 * second) []"]
  by (simp add: witness_defs)

text \<open>
  C6. A cycle with timestamp \<open>now\<close> deletes a tracked key exactly when the key has no
  sample in the batch and \<open>Sub now LastSeenTime\<close> is greater than the timeout; for a
  timeout that is a duration below the largest one, that is exactly when
  \<open>now - LastSeenTime\<close> is greater than the timeout. A key with a sample in the batch is
  tracked afterwards. A tracked key without a sample and not past the timeout keeps its
  state unchanged, and no view of the cycle is for a key without a sample. A key that was
  deleted, after any number of cycles without a sample of it, is at its next sample
  given a fresh state and a view that is not idle, with idle duration and idle memory
  zero, whatever the utilization.
\<close>

theorem staleness_sweep:
  "(states t k = Some st \<longrightarrow>
      (states (fst (Update t snap)) k = None \<longleftrightarrow>
         k \<notin> key_of ` set (Processes snap) \<and>
         Sub (Timestamp snap) (LastSeenTime st) > staleTimeout t)) \<and>
   (states t k = Some st \<and> minDuration \<le> staleTimeout t \<and> staleTimeout t < maxDuration \<longrightarrow>
      (states (fst (Update t snap)) k = None \<longleftrightarrow>
         k \<notin> key_of ` set (Processes snap) \<and>
         Timestamp snap - LastSeenTime st > staleTimeout t)) \<and>
   (k \<in> key_of ` set (Processes snap) \<longrightarrow> states (fst (Update t snap)) k \<noteq> None) \<and>
   (states t k = Some st \<and> k \<notin> key_of ` set (Processes snap) \<and>
    \<not> Sub (Timestamp snap) (LastSeenTime st) > staleTimeout t \<longrightarrow>
      states (fst (Update t snap)) k = Some st) \<and>
   (states t k = Some st \<and> k \<notin> key_of ` set (Processes snap) \<and>
    minDuration \<le> staleTimeout t \<and>
    \<not> Timestamp snap - LastSeenTime st > staleTimeout t \<longrightarrow>
      states (fst (Update t snap)) k = Some st) \<and>
   (k \<notin> key_of ` set (Processes snap) \<longrightarrow>
      (\<forall>v \<in> set (snd (Update t snap)). view_key v \<noteq> k)) \<and>
   (states t k = Some st \<and> k \<notin> key_of ` set (Processes snap) \<and>
    Sub (Timestamp snap) (LastSeenTime st) > staleTimeout t \<and>
    (\<forall>s \<in> set mid. k \<notin> key_of ` set (Processes s)) \<and>
    Processes snap' = pre @ p # post \<and> key_of p = k \<and> k \<notin> key_of ` set pre \<longrightarrow>
      table (classify (Timestamp snap') (ProcessNames snap') (pre @ [p])
               (loop_init (run (fst (Update t snap)) mid))) k =
        Some \<lparr>LastActiveTime = Timestamp snap', LastSeenTime = Timestamp snap',
              FirstSeenTime = Timestamp snap', IsIdle = False, IdleSince = 0\<rparr> \<and>
      \<not> ProcessIdleState.IsIdle (snd (Update (run (fst (Update t snap)) mid) snap') ! length pre) \<and>
      IdleDuration (snd (Update (run (fst (Update t snap)) mid) snap') ! length pre) = 0 \<and>
      IdleMemory (snd (Update (run (fst (Update t snap)) mid) snap') ! length pre) = 0)"
proof (intro conjI impI)
  assume a: "states t k = Some st"
  show "states (fst (Update t snap)) k = None \<longleftrightarrow>
         k \<notin> key_of ` set (Processes snap) \<and>
         Sub (Timestamp snap) (LastSeenTime st) > staleTimeout t"
  proof (cases "k \<in> key_of ` set (Processes snap)")
    case True
    then show ?thesis using present_Update [of k snap t] by simp
  next
    case False
    then show ?thesis using a by (simp add: absent_Update)
  qed
next
  assume a: "states t k = Some st \<and> minDuration \<le> staleTimeout t \<and>
    staleTimeout t < maxDuration"
  then have cmp: "Sub (Timestamp snap) (LastSeenTime st) > staleTimeout t \<longleftrightarrow>
      Timestamp snap - LastSeenTime st > staleTimeout t"
    by (simp add: Sub_gt_iff)
  show "states (fst (Update t snap)) k = None \<longleftrightarrow>
         k \<notin> key_of ` set (Processes snap) \<and>
         Timestamp snap - LastSeenTime st > staleTimeout t"
  proof (cases "k \<in> key_of ` set (Processes snap)")
    case True
    then show ?thesis using present_Update [of k snap t] by simp
  next
    case False
    then show ?thesis using a cmp by (simp add: absent_Update)
  qed
next
  assume "k \<in> key_of ` set (Processes snap)"
  then show "states (fst (Update t snap)) k \<noteq> None"
    by (rule present_Update)
next
  assume "states t k = Some st \<and> k \<notin> key_of ` set (Processes snap) \<and>
    \<not> Sub (Timestamp snap) (LastSeenTime st) > staleTimeout t"
  then show "states (fst (Update t snap)) k = Some st"
    by (simp add: absent_Update)
next
  assume a: "states t k = Some st \<and> k \<notin> key_of ` set (Processes snap) \<and>
    minDuration \<le> staleTimeout t \<and>
    \<not> Timestamp snap - LastSeenTime st > staleTimeout t"
  then have "\<not> Sub (Timestamp snap) (LastSeenTime st) > staleTimeout t"
    using Sub_gt_imp [of "staleTimeout t" "Timestamp snap" "LastSeenTime st"] by blast
  with a show "states (fst (Update t snap)) k = Some st"
    by (simp add: absent_Update)
next
  assume "k \<notin> key_of ` set (Processes snap)"
  then show "\<forall>v \<in> set (snd (Update t snap)). view_key v \<noteq> k"
    using view_keys_Update [of t snap] by auto
next
  let ?t' = "run (fst (Update t snap)) mid"
  let ?fresh = "\<lparr>LastActiveTime = Timestamp snap', LastSeenTime = Timestamp snap',
              FirstSeenTime = Timestamp snap', IsIdle = False, IdleSince = 0\<rparr>"
  assume a: "states t k = Some st \<and> k \<notin> key_of ` set (Processes snap) \<and>
    Sub (Timestamp snap) (LastSeenTime st) > staleTimeout t \<and>
    (\<forall>s \<in> set mid. k \<notin> key_of ` set (Processes s)) \<and>
    Processes snap' = pre @ p # post \<and> key_of p = k \<and> k \<notin> key_of ` set pre"
  then have "states (fst (Update t snap)) k = None"
    by (simp add: absent_Update)
  then have gone: "states ?t' (key_of p) = None"
    using a untracked_run [of "fst (Update t snap)" k mid] by simp
  have split: "Processes snap' = pre @ p # post" and pre: "key_of p \<notin> key_of ` set pre"
    using a by simp_all
  have fresh: "track (Timestamp snap') p None = ?fresh"
    by (simp add: track_def)
  have v: "snd (Update ?t' snap') ! length pre =
      emit (Timestamp snap') (ProcessNames snap') p ?fresh"
    using view_first [OF split pre, of ?t'] gone fresh by simp
  have tb: "table (classify (Timestamp snap') (ProcessNames snap') (pre @ [p]) (loop_init ?t')) k =
      Some ?fresh"
    using pre gone a fresh
    by (simp add: classify_append table_observe table_classify_other table_loop_init)
  show "table (classify (Timestamp snap') (ProcessNames snap') (pre @ [p]) (loop_init ?t')) k =
      Some ?fresh"
    and "\<not> ProcessIdleState.IsIdle (snd (Update ?t' snap') ! length pre)"
    and "IdleDuration (snd (Update ?t' snap') ! length pre) = 0"
    and "IdleMemory (snd (Update ?t' snap') ! length pre) = 0"
    using tb by (simp_all add: v emit_def)
qed

text \<open>
  \<^verbatim>\<open>TestStaleProcessCleanup\<close>, with a timeout of ten seconds: seen at second 0, absent but
  kept at second 5 with no view, deleted at second 16, and fresh again at second 25.
\<close>

theorem staleness_sweep_witness:
  "minDuration \<le> 10 * second \<and> 10 * second < maxDuration \<and>
   states (fst (Update (NewTracker\<lparr>staleTimeout := 10 * second\<rparr>)
                 (makeSnapshot 0 [proc 0 1234 gib 50]))) key_1234 =
     Some \<lparr>LastActiveTime = 0, LastSeenTime = 0, FirstSeenTime = 0,
           IsIdle = False, IdleSince = 0\<rparr> \<and>
   states seen_then_absent key_1234 =
     Some \<lparr>LastActiveTime = 0, LastSeenTime = 0, FirstSeenTime = 0,
           IsIdle = False, IdleSince = 0\<rparr> \<and>
   snd (Update (fst (Update (NewTracker\<lparr>staleTimeout := 10 * second\<rparr>)
                       (makeSnapshot 0 [proc 0 1234 gib 50])))
          (makeSnapshot (5 * second) [])) = [] \<and>
   states (fst (Update seen_then_absent (makeSnapshot (16 * second) []))) key_1234 = None \<and>
   snd (Update (run (fst (Update seen_then_absent (makeSnapshot (16 * second) [])))
                  [makeSnapshot (20 * second) []])
          (makeSnapshot (25 * second) [proc 0 1234 gib 0])) ! 0 =
     \<lparr>ProcessIdleState.GPU = 0, PID = 1234, ProcessName = ''python'', UsedMemory = gib,
      SmUtil = 0, IsIdle = False, IdleDuration = 0, IdleMemory = 0\<rparr>"
  using staleness_sweep [where t = "NewTracker\<lparr>staleTimeout := 10 * second\<rparr>"
      and k = key_1234 and snap = "makeSnapshot 0 [proc 0 1234 gib 50]"]
    staleness_sweep [where t = "fst (Update (NewTracker\<lparr>staleTimeout := 10 * second\<rparr>)
                       (makeSnapshot 0 [proc 0 1234 gib 50]))"
      and k = key_1234 and snap = "makeSnapshot (5 * second) []"
      and st = "\<lparr>LastActiveTime = 0, LastSeenTime = 0, FirstSeenTime = 0,
           IsIdle = False, IdleSince = 0\<rparr>"]
    staleness_sweep [where t = seen_then_absent
      and k = key_1234 and snap = "makeSnapshot (16 * second) []"
      and st = "\<lparr>LastActiveTime = 0, LastSeenTime = 0, FirstSeenTime = 0,
           IsIdle = False, IdleSince = 0\<rparr>"
      and mid = "[makeSnapshot (20 * second) []]"
      and snap' = "makeSnapshot (25 * second) [proc 0 1234 gib 0]"
      and pre = "[]" and p = "proc 0 1234 gib 0" and post = "[]"]
  by (simp add: witness_defs)

text \<open>
  With the largest duration as the timeout, a key last seen at time 0 and absent three
  hundred years later is past the timeout by the difference of the timestamps, and is
  kept all the same.
\<close>

theorem staleness_sweep_counterexample:
  "states patient_tracker key_1234 =
     Some \<lparr>LastActiveTime = 0, LastSeenTime = 0, FirstSeenTime = 0,
           IsIdle = False, IdleSince = 0\<rparr> \<and>
   key_1234 \<notin> key_of ` set (Processes (makeSnapshot three_centuries [])) \<and>
   staleTimeout patient_tracker < Timestamp (makeSnapshot three_centuries []) - 0 \<and>
   states (fst (Update patient_tracker (makeSnapshot three_centuries []))) key_1234 =
     Some \<lparr>LastActiveTime = 0, LastSeenTime = 0, FirstSeenTime = 0,
           IsIdle = False, IdleSince = 0\<rparr>"
  by (simp add: witness_defs)

text \<open>
  C9. One sample changes the table only under its own key: every other key, and so the
  same process id on any other device index, keeps its entry; a batch changes no key
  that has no sample in it. The state a cycle leaves for a key with one sample is
  computed from that sample and the key's own previous entry alone.
\<close>

theorem observe_frame:
  "(k \<noteq> key_of p \<longrightarrow> table (observe now names p s) k = table s k) \<and>
   (d \<noteq> ProcessSample.GPU p \<longrightarrow>
      table (observe now names p s) \<lparr>processKey.GPU = d, processKey.PID = ProcessSample.PID p\<rparr> =
      table s \<lparr>processKey.GPU = d, processKey.PID = ProcessSample.PID p\<rparr>) \<and>
   (k \<notin> key_of ` set ps \<longrightarrow> table (classify now names ps s) k = table s k) \<and>
   (Processes snap = pre @ p # post \<and> key_of p \<notin> key_of ` set pre \<and>
    key_of p \<notin> key_of ` set post \<longrightarrow>
      states (fst (Update t snap)) (key_of p) =
        Some (track (Timestamp snap) p (states t (key_of p))))"
  by (simp add: table_observe table_classify_other state_once) (simp add: key_of_def)

text \<open>
  The second poll of \<^verbatim>\<open>TestMultiGPUProcesses\<close>: process 1234 stays active on GPU 0 and
  turns idle on GPU 1, and the sample of GPU 1 leaves the entry of GPU 0 as it was.
\<close>

theorem observe_frame_witness:
  "snd (Update multi_gpu_first
          (makeSnapshot (5 * second) [proc 0 1234 gib 50, proc 1 1234 (2 * gib) 0])) =
     [\<lparr>ProcessIdleState.GPU = 0, PID = 1234, ProcessName = ''python'', UsedMemory = gib,
       SmUtil = 50, IsIdle = False, IdleDuration = 0, IdleMemory = 0\<rparr>,
      \<lparr>ProcessIdleState.GPU = 1, PID = 1234, ProcessName = ''python'', UsedMemory = 2 * gib,
       SmUtil = 0, IsIdle = True, IdleDuration = 0, IdleMemory = 2 * gib\<rparr>] \<and>
   table (observe (5 * second) Map.empty (proc 1 1234 (2 * gib) 0) (loop_init multi_gpu_first))
       \<lparr>processKey.GPU = 0, processKey.PID = 1234\<rparr> =
     states multi_gpu_first \<lparr>processKey.GPU = 0, processKey.PID = 1234\<rparr> \<and>
   states multi_gpu_first \<lparr>processKey.GPU = 0, processKey.PID = 1234\<rparr> =
     Some \<lparr>LastActiveTime = 0, LastSeenTime = 0, FirstSeenTime = 0,
           IsIdle = False, IdleSince = 0\<rparr> \<and>
   table (observe (5 * second) Map.empty (proc 1 1234 (2 * gib) 0) (loop_init multi_gpu_first))
       \<lparr>processKey.GPU = 1, processKey.PID = 1234\<rparr> =
     Some \<lparr>LastActiveTime = 0, LastSeenTime = 5 * second, FirstSeenTime = 0,
           IsIdle = True, IdleSince = 5 * second\<rparr>"
  using observe_frame [where k = "\<lparr>processKey.GPU = 0, processKey.PID = 1234\<rparr>"
      and p = "proc 1 1234 (2 * gib) 0" and d = 0 and now = "5 * second"
      and names = Map.empty and s = "loop_init multi_gpu_first" and ps = "[]"
      and snap = "makeSnapshot (5 * second) [proc 0 1234 gib 50, proc 1 1234 (2 * gib) 0]"
      and pre = "[proc 0 1234 gib 50]" and post = "[]" and t = multi_gpu_first]
  by (simp add: witness_defs)

text \<open>
  C10. When a key has two samples in one batch, the cycle emits one view per sample, each
  for the key of its sample, and the later sample finds the key tracked: its view comes
  from the transition of a tracked state. If the key was not tracked before the cycle,
  these are its first two samples in the batch and both have utilization 0, the view of
  the first is not idle and the view of the second is idle, with idle duration 0 and
  the sample's memory as idle memory.
\<close>

theorem duplicate_key_in_batch:
  assumes "Processes snap = pre @ p # mid @ q # post" and "key_of q = key_of p"
  shows "length (snd (Update t snap)) = length (Processes snap) \<and>
     (\<forall>i < length (Processes snap).
        view_key (snd (Update t snap) ! i) = key_of (Processes snap ! i)) \<and>
     (\<exists>st. table (classify (Timestamp snap) (ProcessNames snap) (pre @ p # mid) (loop_init t))
              (key_of q) = Some st \<and>
           snd (Update t snap) ! (Suc (length pre + length mid)) =
             emit (Timestamp snap) (ProcessNames snap) q (track (Timestamp snap) q (Some st))) \<and>
     (states t (key_of p) = None \<and> key_of p \<notin> key_of ` set pre \<and>
      key_of p \<notin> key_of ` set mid \<and>
      ProcessSample.SmUtil p = 0 \<and> ProcessSample.SmUtil q = 0 \<longrightarrow>
        \<not> ProcessIdleState.IsIdle (snd (Update t snap) ! length pre) \<and>
        ProcessIdleState.IsIdle (snd (Update t snap) ! (Suc (length pre + length mid))) \<and>
        IdleDuration (snd (Update t snap) ! (Suc (length pre + length mid))) = 0 \<and>
        IdleMemory (snd (Update t snap) ! (Suc (length pre + length mid))) =
          ProcessSample.UsedMemory q)"
proof -
  let ?now = "Timestamp snap"
  let ?names = "ProcessNames snap"
  let ?s = "classify ?now ?names (pre @ p # mid) (loop_init t)"
  have split2: "Processes snap = (pre @ p # mid) @ q # post"
    using assms(1) by simp
  have vq: "snd (Update t snap) ! (Suc (length pre + length mid)) =
      emit ?now ?names q (track ?now q (table ?s (key_of q)))"
    using view_at [OF split2, of t] by simp
  have "key_of q \<in> dom (table ?s)"
    using assms(2) by (simp add: dom_classify)
  then obtain st where st: "table ?s (key_of q) = Some st"
    by auto
  have tracked: "\<exists>st. table ?s (key_of q) = Some st \<and>
      snd (Update t snap) ! (Suc (length pre + length mid)) =
        emit ?now ?names q (track ?now q (Some st))"
    using st vq by simp
  have twice: "\<not> ProcessIdleState.IsIdle (snd (Update t snap) ! length pre) \<and>
        ProcessIdleState.IsIdle (snd (Update t snap) ! (Suc (length pre + length mid))) \<and>
        IdleDuration (snd (Update t snap) ! (Suc (length pre + length mid))) = 0 \<and>
        IdleMemory (snd (Update t snap) ! (Suc (length pre + length mid))) =
          ProcessSample.UsedMemory q"
    if a: "states t (key_of p) = None \<and> key_of p \<notin> key_of ` set pre \<and>
      key_of p \<notin> key_of ` set mid \<and>
      ProcessSample.SmUtil p = 0 \<and> ProcessSample.SmUtil q = 0"
  proof -
    have vp: "snd (Update t snap) ! length pre = emit ?now ?names p (track ?now p None)"
      using view_first [OF assms(1), of t] a by simp
    have "table ?s (key_of p) = Some (track ?now p None)"
      using table_classify_once [of p pre mid ?now ?names "loop_init t"] a
      by (simp add: table_loop_init)
    then have vq': "snd (Update t snap) ! (Suc (length pre + length mid)) =
        emit ?now ?names q (track ?now q (Some (track ?now p None)))"
      using vq assms(2) by simp
    show ?thesis
      using a by (simp add: vp vq' emit_def track_def Let_def Sub_self)
  qed
  show ?thesis
    using tracked twice by (simp add: length_Update view_key_nth)
qed

text \<open>A new tracker and a batch with the same sample twice.\<close>

theorem duplicate_key_in_batch_witness:
  "snd (Update NewTracker (makeSnapshot 0 [proc 0 1234 gib 0, proc 0 1234 gib 0])) =
     [\<lparr>ProcessIdleState.GPU = 0, PID = 1234, ProcessName = ''python'', UsedMemory = gib,
       SmUtil = 0, IsIdle = False, IdleDuration = 0, IdleMemory = 0\<rparr>,
      \<lparr>ProcessIdleState.GPU = 0, PID = 1234, ProcessName = ''python'', UsedMemory = gib,
       SmUtil = 0, IsIdle = True, IdleDuration = 0, IdleMemory = gib\<rparr>]"
proof -
  let ?p = "proc 0 1234 gib 0"
  have h1: "Processes (makeSnapshot 0 [?p, ?p]) = [] @ ?p # [] @ ?p # []"
    by (simp add: makeSnapshot_def)
  from duplicate_key_in_batch [OF h1 refl, of NewTracker]
  show ?thesis
    by (simp add: witness_defs)
qed

section \<open>The claims about the sample merger\<close>

text \<open>
  C7. When the query for the processes holding memory succeeds, \<open>collectProcesses\<close>
  returns one sample per process of that list, in its order, with the device index, the
  process id and the memory of the process; the sample's utilization is the largest
  \<open>SmUtil\<close> among the utilization samples of that process id, or 0 when there is none.
  No process id outside the list is in the result. When the query fails, nothing is
  returned.
\<close>

theorem collectProcesses_samples:
  assumes "GetProcessUtilization (get0 (lastSampleTime c) gpuIndex) = (ret, utilSamples)"
  shows "snd (collectProcesses gpuIndex (SUCCESS, procs) GetProcessUtilization c) =
     map (\<lambda>p. \<lparr>ProcessSample.GPU = gpuIndex, ProcessSample.PID = ProcessInfo.Pid p,
               ProcessSample.UsedMemory = UsedGpuMemory p,
               ProcessSample.SmUtil =
                 (if \<exists>s \<in> set utilSamples. ProcessUtilizationSample.Pid s = ProcessInfo.Pid p
                  then Max (ProcessUtilizationSample.SmUtil `
                         {s \<in> set utilSamples.
                            ProcessUtilizationSample.Pid s = ProcessInfo.Pid p})
                  else 0)\<rparr>) procs \<and>
   (\<forall>pid. pid \<notin> ProcessInfo.Pid ` set procs \<longrightarrow>
      pid \<notin> ProcessSample.PID `
        set (snd (collectProcesses gpuIndex (SUCCESS, procs) GetProcessUtilization c))) \<and>
   (r \<noteq> SUCCESS \<longrightarrow> snd (collectProcesses gpuIndex (r, procs) GetProcessUtilization c) = [])"
proof -
  have u: "get0 (buildUtilMap utilSamples Map.empty) pid =
      (if \<exists>s \<in> set utilSamples. ProcessUtilizationSample.Pid s = pid
       then Max (ProcessUtilizationSample.SmUtil `
              {s \<in> set utilSamples. ProcessUtilizationSample.Pid s = pid})
       else 0)" for pid
    using buildUtilMap_Max [of utilSamples pid] buildUtilMap_absent [of utilSamples pid]
    by (simp del: Set.bex_simps)
  have m: "snd (collectProcesses gpuIndex (SUCCESS, procs) GetProcessUtilization c) =
      merge gpuIndex (buildUtilMap utilSamples Map.empty) procs"
    by (simp add: snd_collectProcesses assms)
  have pids: "ProcessSample.PID ` set (merge gpuIndex um procs) = ProcessInfo.Pid ` set procs"
    for um
    by (force simp: merge_def)
  have c1: "merge gpuIndex (buildUtilMap utilSamples Map.empty) procs =
     map (\<lambda>p. \<lparr>ProcessSample.GPU = gpuIndex, ProcessSample.PID = ProcessInfo.Pid p,
               ProcessSample.UsedMemory = UsedGpuMemory p,
               ProcessSample.SmUtil =
                 (if \<exists>s \<in> set utilSamples. ProcessUtilizationSample.Pid s = ProcessInfo.Pid p
                  then Max (ProcessUtilizationSample.SmUtil `
                         {s \<in> set utilSamples.
                            ProcessUtilizationSample.Pid s = ProcessInfo.Pid p})
                  else 0)\<rparr>) procs"
    unfolding merge_def u ..
  have c3: "r \<noteq> SUCCESS \<longrightarrow>
      snd (collectProcesses gpuIndex (r, procs) GetProcessUtilization c) = []"
    by (simp add: snd_collectProcesses)
  have c2: "\<forall>pid. pid \<notin> ProcessInfo.Pid ` set procs \<longrightarrow>
      pid \<notin> ProcessSample.PID `
        set (merge gpuIndex (buildUtilMap utilSamples Map.empty) procs)"
    by (simp only: pids) simp
  show ?thesis
    unfolding m using c1 c2 c3 by blast
qed

text \<open>The example device: process 100 gets the larger of its two samples, process 200 gets 0.\<close>

theorem collectProcesses_samples_witness:
  "query_since (get0 (lastSampleTime New) 0) = (SUCCESS, window) \<and>
   snd (collectProcesses 0 (SUCCESS, holders) query_since New) =
     [\<lparr>ProcessSample.GPU = 0, PID = 100, UsedMemory = 4 * gib, SmUtil = 50\<rparr>,
      \<lparr>ProcessSample.GPU = 0, PID = 200, UsedMemory = 8 * gib, SmUtil = 0\<rparr>] \<and>
   300 \<notin> ProcessInfo.Pid ` set holders \<and>
   300 \<notin> ProcessSample.PID ` set (snd (collectProcesses 0 (SUCCESS, holders) query_since New)) \<and>
   snd (collectProcesses 0 (ERROR_OTHER, holders) query_since New) = []"
proof -
  have h: "query_since (get0 (lastSampleTime New) 0) = (SUCCESS, window)"
    by (simp add: collector_defs)
  from collectProcesses_samples [where GetProcessUtilization = query_since and c = New
      and gpuIndex = 0 and ret = SUCCESS and utilSamples = window and procs = holders
      and r = ERROR_OTHER, OF h]
  show ?thesis
    by (simp add: collector_defs)
qed

text \<open>
  C8. The stored timestamp of the device never decreases in a call. The collector is left
  as it was when the utilization query returns no samples, and when the query is not
  made (the first query failed or its list is empty). When the query returns samples,
  the stored timestamp becomes the larger of its previous value and the largest sample
  timestamp; this is the largest sample timestamp whenever some sample is not older than
  the stored value, as the samples of a query since that value are. The timestamps of
  other devices are not touched.
\<close>

theorem high_water_mark:
  assumes "GetProcessUtilization (get0 (lastSampleTime c) gpuIndex) = (ret, utilSamples)"
  shows "get0 (lastSampleTime c) gpuIndex \<le>
       get0 (lastSampleTime (fst (collectProcesses gpuIndex (r, procs) GetProcessUtilization c)))
         gpuIndex \<and>
   (utilSamples = [] \<longrightarrow>
      fst (collectProcesses gpuIndex (r, procs) GetProcessUtilization c) = c) \<and>
   (r \<noteq> SUCCESS \<or> procs = [] \<longrightarrow>
      fst (collectProcesses gpuIndex (r, procs) GetProcessUtilization c) = c) \<and>
   (r = SUCCESS \<and> procs \<noteq> [] \<and> utilSamples \<noteq> [] \<longrightarrow>
      get0 (lastSampleTime (fst (collectProcesses gpuIndex (r, procs) GetProcessUtilization c)))
          gpuIndex =
        max (get0 (lastSampleTime c) gpuIndex) (Max (TimeStamp ` set utilSamples)) \<and>
      ((\<exists>s \<in> set utilSamples. get0 (lastSampleTime c) gpuIndex \<le> TimeStamp s) \<longrightarrow>
         get0 (lastSampleTime (fst (collectProcesses gpuIndex (r, procs) GetProcessUtilization c)))
             gpuIndex =
           Max (TimeStamp ` set utilSamples))) \<and>
   (\<forall>g. g \<noteq> gpuIndex \<longrightarrow>
      lastSampleTime (fst (collectProcesses gpuIndex (r, procs) GetProcessUtilization c)) g =
        lastSampleTime c g)"
proof -
  let ?old = "get0 (lastSampleTime c) gpuIndex"
  let ?c' = "fst (collectProcesses gpuIndex (r, procs) GetProcessUtilization c)"
  have c': "?c' =
     (if r = SUCCESS \<and> procs \<noteq> [] \<and> utilSamples \<noteq> []
      then c\<lparr>lastSampleTime := (lastSampleTime c)(gpuIndex \<mapsto> maxTimeStamp utilSamples ?old)\<rparr>
      else c)"
    by (simp add: fst_collectProcesses assms)
  have mx: "utilSamples \<noteq> [] \<Longrightarrow>
      maxTimeStamp utilSamples ?old = max ?old (Max (TimeStamp ` set utilSamples))"
    by (rule maxTimeStamp_max)
  have ge: "(\<exists>s \<in> set utilSamples. ?old \<le> TimeStamp s) \<Longrightarrow>
      max ?old (Max (TimeStamp ` set utilSamples)) = Max (TimeStamp ` set utilSamples)"
  proof -
    assume "\<exists>s \<in> set utilSamples. ?old \<le> TimeStamp s"
    then obtain s where s: "s \<in> set utilSamples" "?old \<le> TimeStamp s" by blast
    then have "TimeStamp s \<le> Max (TimeStamp ` set utilSamples)"
      by (intro Max_ge) simp_all
    with s(2) have "?old \<le> Max (TimeStamp ` set utilSamples)"
      by (rule order_trans)
    then show ?thesis by (rule max_absorb2)
  qed
  have 1: "?old \<le> get0 (lastSampleTime ?c') gpuIndex"
    unfolding c' using mx by (simp add: get0_upd)
  have 2: "utilSamples = [] \<longrightarrow> ?c' = c"
    by (simp add: c')
  have 3: "r \<noteq> SUCCESS \<or> procs = [] \<longrightarrow> ?c' = c"
    unfolding c' by auto
  have 4: "r = SUCCESS \<and> procs \<noteq> [] \<and> utilSamples \<noteq> [] \<longrightarrow>
      get0 (lastSampleTime ?c') gpuIndex = max ?old (Max (TimeStamp ` set utilSamples)) \<and>
      ((\<exists>s \<in> set utilSamples. ?old \<le> TimeStamp s) \<longrightarrow>
         get0 (lastSampleTime ?c') gpuIndex = Max (TimeStamp ` set utilSamples))"
    unfolding c' using mx ge by (simp add: get0_upd del: Set.bex_simps)
  have 5: "\<forall>g. g \<noteq> gpuIndex \<longrightarrow> lastSampleTime ?c' g = lastSampleTime c g"
    by (simp add: c')
  from 1 2 3 4 5 show ?thesis by blast
qed

text \<open>
  The example device: the first call takes the stored timestamp from 0 to 2000, the
  second call gets no newer sample and changes nothing, a failed first query changes
  nothing.
\<close>

theorem high_water_mark_witness:
  "query_since (get0 (lastSampleTime New) 0) = (SUCCESS, window) \<and>
   get0 (lastSampleTime New) 0 = 0 \<and>
   get0 (lastSampleTime (fst (collectProcesses 0 (SUCCESS, holders) query_since New))) 0 = 2000 \<and>
   Max (TimeStamp ` set window) = 2000 \<and>
   query_since 2000 = (ERROR_NOT_FOUND, []) \<and>
   fst (collectProcesses 0 (SUCCESS, holders) query_since
          (fst (collectProcesses 0 (SUCCESS, holders) query_since New))) =
     fst (collectProcesses 0 (SUCCESS, holders) query_since New) \<and>
   fst (collectProcesses 0 (ERROR_OTHER, holders) query_since New) = New \<and>
   lastSampleTime (fst (collectProcesses 0 (SUCCESS, holders) query_since New)) 1 = None"
proof -
  have h: "query_since (get0 (lastSampleTime New) 0) = (SUCCESS, window)"
    by (simp add: collector_defs)
  have h2: "query_since (get0 (lastSampleTime
      (fst (collectProcesses 0 (SUCCESS, holders) query_since New))) 0) = (ERROR_NOT_FOUND, [])"
    by (simp add: collector_defs)
  from high_water_mark [where GetProcessUtilization = query_since and c = New
      and gpuIndex = 0 and ret = SUCCESS and utilSamples = window and procs = holders
      and r = SUCCESS, OF h]
    high_water_mark [where GetProcessUtilization = query_since and c = New
      and gpuIndex = 0 and ret = SUCCESS and utilSamples = window and procs = holders
      and r = ERROR_OTHER, OF h]
    high_water_mark [where GetProcessUtilization = query_since
      and c = "fst (collectProcesses 0 (SUCCESS, holders) query_since New)"
      and gpuIndex = 0 and ret = ERROR_NOT_FOUND and utilSamples = "[]" and procs = holders
      and r = SUCCESS, OF h2]
  show ?thesis
    by (simp add: collector_defs)
qed

end
